theory Spec2Isabelle
  imports Main "HOL-Library.Word"
begin

unbundle bit_operations_syntax

section \<open>The compiler driver of compiler/driver/compiler\_driver.h\<close>

text \<open>
  The header declares the class \<open>CompilerDriver\<close>, defines inline its patch records
  (\<open>PatchInformation\<close> and its three subclasses), the accessors of the patch lists and
  the hash functor \<open>DedupeHashFunc\<close> of the four deduplication sets. Those are embedded
  here as they are written. The member functions that the header only declares
  (\<open>AddCodePatch\<close>, \<open>DeduplicateCode\<close>, \<open>GetCompiledMethod\<close>, \<open>IsImageClass\<close>, ...)
  have their bodies in another translation unit; each of them is modelled from the
  specification, in a definition that says so.

  \<open>size_t\<close> is the platform's unsigned word: it is \<open>'a word\<close> for an arbitrary width
  \<open>'a\<close>, so every theorem holds for the 32-bit and for the 64-bit build alike.
  A pointer is an address, the null pointer is address 0.
\<close>

subsection \<open>Fatal errors\<close>

text \<open>
  \<open>CHECK(...)\<close> and \<open>LOG(FATAL)\<close> abort the process; reading a \<open>std::vector\<close> out of
  range or dereferencing a null pointer is undefined. Each is a value of \<open>error\<close>, and
  a function that can reach one returns \<open>error + 'r\<close>.
\<close>

datatype error =
    CheckFailed           \<comment> \<open>a \<open>CHECK\<close> that does not hold\<close>
  | FatalUnreachable      \<comment> \<open>\<open>LOG(FATAL) << "Unreachable"\<close>\<close>
  | IndexOutOfRange       \<comment> \<open>\<open>array[i]\<close> with \<open>i \<ge> array.size()\<close>\<close>
  | NullDereference       \<comment> \<open>\<open>*p\<close> with \<open>p\<close> null\<close>
  | DuplicateInsert       \<comment> \<open>a second artifact for one reference (a contract violation)\<close>

type_synonym addr = nat

definition NULL :: addr where
  "NULL = 0"

subsection \<open>DedupeHashFunc\<close>

definition kSmallArrayThreshold :: nat where
  "kSmallArrayThreshold = 16"

definition kRandomHashCount :: nat where
  "kRandomHashCount = 16"

text \<open>\<open>hash = (hash * 16777619) ^ b\<close>, the byte \<open>b\<close> converted to \<open>size_t\<close>.\<close>

definition hash_byte :: "'a::len word \<Rightarrow> 8 word \<Rightarrow> 'a word" where
  "hash_byte hash b = (hash * 16777619) XOR ucast b"

text \<open>\<open>for (uint8_t b : array) { hash = (hash * 16777619) ^ b; }\<close>\<close>

fun hash_every_byte :: "'a::len word \<Rightarrow> 8 word list \<Rightarrow> 'a word" where
  "hash_every_byte hash [] = hash"
| "hash_every_byte hash (b # bs) = hash_every_byte (hash_byte hash b) bs"

text \<open>\<open>array[i]\<close> of a \<open>std::vector<uint8_t>\<close>: defined only inside the vector.\<close>

definition at :: "8 word list \<Rightarrow> nat \<Rightarrow> error + 8 word" where
  "at array i = (if i < length array then Inr (array ! i) else Inl IndexOutOfRange)"

text \<open>
  \<open>for (size_t i = 0; i < 2; ++i) { uint8_t b = array[i + 6]; hash = (hash * 16777619) ^ b; }\<close>
\<close>

function hash_push_bytes :: "8 word list \<Rightarrow> nat \<Rightarrow> 'a::len word \<Rightarrow> error + 'a word" where
  "hash_push_bytes array i hash =
     (if i < 2 then
        (case at array (i + 6) of
           Inl e \<Rightarrow> Inl e
         | Inr b \<Rightarrow> hash_push_bytes array (i + 1) (hash_byte hash b))
      else Inr hash)"
  by pat_completeness auto
termination
  by (relation "measure (\<lambda>(array, i, hash). 2 - i)") auto

text \<open>
  \<open>for (size_t i = 2; i < kRandomHashCount; ++i) {
      size_t r = i * 1103515245 + 12345;
      uint8_t b = array[r % array.size()];
      hash = (hash * 16777619) ^ b; }\<close>

  \<open>r\<close> is computed in \<open>size_t\<close>, so the product wraps at the word's width;
  \<open>array.size()\<close> is a \<open>size_t\<close> that holds the length exactly.
\<close>

definition random_index :: "'a::len itself \<Rightarrow> nat \<Rightarrow> nat \<Rightarrow> nat" where
  "random_index T i n = unat (of_nat i * 1103515245 + 12345 :: 'a word) mod n"

function hash_random_bytes :: "8 word list \<Rightarrow> nat \<Rightarrow> 'a::len word \<Rightarrow> error + 'a word" where
  "hash_random_bytes array i hash =
     (if i < kRandomHashCount then
        (case at array (random_index TYPE('a) i (length array)) of
           Inl e \<Rightarrow> Inl e
         | Inr b \<Rightarrow> hash_random_bytes array (i + 1) (hash_byte hash b))
      else Inr hash)"
  by pat_completeness auto
termination
  by (relation "measure (\<lambda>(array, i, hash). kRandomHashCount - i)") auto

text \<open>
  \<open>hash += hash << 13; hash ^= hash >> 7; hash += hash << 3; hash ^= hash >> 17;
   hash += hash << 5;\<close>
\<close>

definition final_mix :: "'a::len word \<Rightarrow> 'a word" where
  "final_mix hash0 =
     (let hash1 = hash0 + push_bit 13 hash0;
          hash2 = hash1 XOR drop_bit 7 hash1;
          hash3 = hash2 + push_bit 3 hash2;
          hash4 = hash3 XOR drop_bit 17 hash3;
          hash5 = hash4 + push_bit 5 hash4
      in hash5)"

definition DedupeHashFunc :: "8 word list \<Rightarrow> error + 'a::len word" where
  "DedupeHashFunc array =
     (let hash = 0x811c9dc5 in
      case (if length array \<le> kSmallArrayThreshold
            then Inr (hash_every_byte hash array)
            else (case hash_push_bytes array 0 hash of
                    Inl e \<Rightarrow> Inl e
                  | Inr hash' \<Rightarrow> hash_random_bytes array 2 hash')) of
        Inl e \<Rightarrow> Inl e
      | Inr hash' \<Rightarrow> Inr (final_mix hash'))"

text \<open>
  The byte positions the large-array branch reads, in the order it reads them:
  6 and 7, then \<open>r mod size\<close> for \<open>i = 2, ..., 15\<close>.
\<close>

definition sample_positions :: "'a::len itself \<Rightarrow> nat \<Rightarrow> nat list" where
  "sample_positions T n = [6, 7] @ map (\<lambda>i. random_index T i n) [2..<16]"

subsection \<open>Patch records\<close>

text \<open>
  A class is a record of its (const) fields, a subclass extends the record of its base
  class, so the getters of \<open>PatchInformation\<close> apply to every subclass. \<open>InvokeType\<close>
  (invoke\_type.h) is a parameter \<open>'i\<close>, \<open>size_t\<close> a parameter \<open>'s\<close>.
  A field \<open>name_\<close> of the source is \<open>name'\<close> here.
\<close>

record 's PatchInformation =
  dex_file' :: addr
  referrer_class_def_idx' :: "16 word"
  referrer_method_idx' :: "32 word"
  literal_offset' :: 's

record ('s, 'i) CallPatchInformation = "'s PatchInformation" +
  referrer_invoke_type' :: 'i
  target_method_idx' :: "32 word"
  target_invoke_type' :: 'i

record ('s, 'i) RelativeCallPatchInformation = "('s, 'i) CallPatchInformation" +
  offset' :: "32 word"

record 's TypePatchInformation = "'s PatchInformation" +
  target_type_idx' :: "32 word"

text \<open>
  The dynamic class of an object decides its virtual functions. \<open>call_patch\<close> is an
  object behind a \<open>const CallPatchInformation*\<close>, \<open>patch\<close> one behind a
  \<open>const PatchInformation*\<close>.
\<close>

datatype ('s, 'i) call_patch =
    Call "('s, 'i) CallPatchInformation"
  | RelativeCall "('s, 'i) RelativeCallPatchInformation"

datatype ('s, 'i) patch =
    Plain "'s PatchInformation"
  | CallPatch "('s, 'i) call_patch"
  | TypePatch "'s TypePatchInformation"

text \<open>The constructors; \<open>CHECK(dex_file_ != NULL)\<close> is in the base class's.\<close>

definition PatchInformation_init ::
  "addr \<Rightarrow> 16 word \<Rightarrow> 32 word \<Rightarrow> 's \<Rightarrow> error + 's PatchInformation" where
  "PatchInformation_init dex_file referrer_class_def_idx referrer_method_idx literal_offset =
     (let this = \<lparr>dex_file' = dex_file,
                  referrer_class_def_idx' = referrer_class_def_idx,
                  referrer_method_idx' = referrer_method_idx,
                  literal_offset' = literal_offset\<rparr>
      in if dex_file' this \<noteq> NULL then Inr this else Inl CheckFailed)"

definition CallPatchInformation_init ::
  "addr \<Rightarrow> 16 word \<Rightarrow> 32 word \<Rightarrow> 'i \<Rightarrow> 32 word \<Rightarrow> 'i \<Rightarrow> 's
   \<Rightarrow> error + ('s, 'i) CallPatchInformation" where
  "CallPatchInformation_init dex_file referrer_class_def_idx referrer_method_idx
       referrer_invoke_type target_method_idx target_invoke_type literal_offset =
     (case PatchInformation_init dex_file referrer_class_def_idx referrer_method_idx
             literal_offset of
        Inl e \<Rightarrow> Inl e
      | Inr base \<Rightarrow>
          Inr \<lparr>dex_file' = dex_file' base,
               referrer_class_def_idx' = referrer_class_def_idx' base,
               referrer_method_idx' = referrer_method_idx' base,
               literal_offset' = literal_offset' base,
               referrer_invoke_type' = referrer_invoke_type,
               target_method_idx' = target_method_idx,
               target_invoke_type' = target_invoke_type\<rparr>)"

definition RelativeCallPatchInformation_init ::
  "addr \<Rightarrow> 16 word \<Rightarrow> 32 word \<Rightarrow> 'i \<Rightarrow> 32 word \<Rightarrow> 'i \<Rightarrow> 's \<Rightarrow> 32 word
   \<Rightarrow> error + ('s, 'i) RelativeCallPatchInformation" where
  "RelativeCallPatchInformation_init dex_file referrer_class_def_idx referrer_method_idx
       referrer_invoke_type target_method_idx target_invoke_type literal_offset
       pc_relative_offset =
     (case CallPatchInformation_init dex_file referrer_class_def_idx referrer_method_idx
             referrer_invoke_type target_method_idx target_invoke_type literal_offset of
        Inl e \<Rightarrow> Inl e
      | Inr base \<Rightarrow>
          Inr \<lparr>dex_file' = dex_file' base,
               referrer_class_def_idx' = referrer_class_def_idx' base,
               referrer_method_idx' = referrer_method_idx' base,
               literal_offset' = literal_offset' base,
               referrer_invoke_type' = referrer_invoke_type' base,
               target_method_idx' = target_method_idx' base,
               target_invoke_type' = target_invoke_type' base,
               offset' = pc_relative_offset\<rparr>)"

definition TypePatchInformation_init ::
  "addr \<Rightarrow> 16 word \<Rightarrow> 32 word \<Rightarrow> 32 word \<Rightarrow> 's \<Rightarrow> error + 's TypePatchInformation" where
  "TypePatchInformation_init dex_file referrer_class_def_idx referrer_method_idx
       target_type_idx literal_offset =
     (case PatchInformation_init dex_file referrer_class_def_idx referrer_method_idx
             literal_offset of
        Inl e \<Rightarrow> Inl e
      | Inr base \<Rightarrow>
          Inr \<lparr>dex_file' = dex_file' base,
               referrer_class_def_idx' = referrer_class_def_idx' base,
               referrer_method_idx' = referrer_method_idx' base,
               literal_offset' = literal_offset' base,
               target_type_idx' = target_type_idx\<rparr>)"

text \<open>
  The getters of \<open>PatchInformation\<close>, inherited by every subclass. \<open>GetDexFile\<close> returns
  \<open>*dex_file_\<close>: the object at that address.
\<close>

definition GetDexFile :: "('s, 'z) PatchInformation_scheme \<Rightarrow> error + addr" where
  "GetDexFile this =
     (if dex_file' this = NULL then Inl NullDereference else Inr (dex_file' this))"

definition GetReferrerClassDefIdx :: "('s, 'z) PatchInformation_scheme \<Rightarrow> 16 word" where
  "GetReferrerClassDefIdx this = referrer_class_def_idx' this"

definition GetReferrerMethodIdx :: "('s, 'z) PatchInformation_scheme \<Rightarrow> 32 word" where
  "GetReferrerMethodIdx this = referrer_method_idx' this"

definition GetLiteralOffset :: "('s, 'z) PatchInformation_scheme \<Rightarrow> 's" where
  "GetLiteralOffset this = literal_offset' this"

text \<open>The getters of \<open>CallPatchInformation\<close> and of \<open>TypePatchInformation\<close>.\<close>

definition GetReferrerInvokeType :: "('s, 'i, 'z) CallPatchInformation_scheme \<Rightarrow> 'i" where
  "GetReferrerInvokeType this = referrer_invoke_type' this"

definition GetTargetMethodIdx :: "('s, 'i, 'z) CallPatchInformation_scheme \<Rightarrow> 32 word" where
  "GetTargetMethodIdx this = target_method_idx' this"

definition GetTargetInvokeType :: "('s, 'i, 'z) CallPatchInformation_scheme \<Rightarrow> 'i" where
  "GetTargetInvokeType this = target_invoke_type' this"

definition GetTargetTypeIdx :: "('s, 'z) TypePatchInformation_scheme \<Rightarrow> 32 word" where
  "GetTargetTypeIdx this = target_type_idx' this"

text \<open>
  The virtual functions. \<open>PatchInformation\<close> answers \<open>false\<close> to \<open>IsCall\<close> and \<open>IsType\<close>
  and aborts in \<open>AsCall\<close> and \<open>AsType\<close>; \<open>CallPatchInformation\<close> overrides \<open>IsCall\<close> and
  \<open>AsCall\<close>, \<open>TypePatchInformation\<close> overrides \<open>IsType\<close> and \<open>AsType\<close>; each inherits
  the other two.
\<close>

fun IsCall :: "('s, 'i) patch \<Rightarrow> bool" where
  "IsCall (Plain this) = False"
| "IsCall (CallPatch this) = True"
| "IsCall (TypePatch this) = False"

fun IsType :: "('s, 'i) patch \<Rightarrow> bool" where
  "IsType (Plain this) = False"
| "IsType (CallPatch this) = False"
| "IsType (TypePatch this) = True"

fun AsCall :: "('s, 'i) patch \<Rightarrow> error + ('s, 'i) call_patch" where
  "AsCall (Plain this) = Inl FatalUnreachable"
| "AsCall (CallPatch this) = Inr this"
| "AsCall (TypePatch this) = Inl FatalUnreachable"

fun AsType :: "('s, 'i) patch \<Rightarrow> error + 's TypePatchInformation" where
  "AsType (Plain this) = Inl FatalUnreachable"
| "AsType (CallPatch this) = Inl FatalUnreachable"
| "AsType (TypePatch this) = Inr this"

text \<open>
  \<open>IsRelative\<close> and \<open>RelativeOffset\<close> are virtual in \<open>CallPatchInformation\<close> and
  overridden in \<open>RelativeCallPatchInformation\<close>.
\<close>

fun IsRelative :: "('s, 'i) call_patch \<Rightarrow> bool" where
  "IsRelative (Call this) = False"
| "IsRelative (RelativeCall this) = True"

fun RelativeOffset :: "('s, 'i) call_patch \<Rightarrow> 32 word" where
  "RelativeOffset (Call this) = 0"
| "RelativeOffset (RelativeCall this) = offset' this"

subsection \<open>The driver's state\<close>

text \<open>
  \<open>ClassReference\<close> (class\_reference.h) is a module and a class-def index,
  \<open>MethodReference\<close> (method\_reference.h) a module and a method index. A
  \<open>CompiledClass*\<close> or \<open>CompiledMethod*\<close> is the address of the artifact.
\<close>

type_synonym ClassReference = "addr \<times> 16 word"
type_synonym MethodReference = "addr \<times> 32 word"

text \<open>
  Modelled from the spec: \<open>DedupeSet\<close> (utils/dedupe\_set.h) is missing. A dedupe entry
  is (fingerprint \<open>\<rightarrow>\<close> owned immutable byte buffer); entries are never removed. The set
  is the list of its entries in the order they were allocated, and the handle of a
  buffer is its position in that list.
\<close>

type_synonym 's DedupeSet = "('s \<times> 8 word list) list"

text \<open>
  The fields of \<open>CompilerDriver\<close> that the functions below read or write:
  the three patch lists, the two artifact tables, \<open>image_\<close>, \<open>image_classes_\<close>
  (\<open>None\<close> is the null \<open>UniquePtr\<close>) and the four dedupe sets.
\<close>

record ('s, 'i) CompilerDriver =
  code_to_patch' :: "('s, 'i) call_patch list"
  methods_to_patch' :: "('s, 'i) call_patch list"
  classes_to_patch' :: "'s TypePatchInformation list"
  compiled_classes' :: "ClassReference \<rightharpoonup> addr"
  compiled_methods' :: "MethodReference \<rightharpoonup> addr"
  image' :: bool
  image_classes' :: "string set option"
  dedupe_code' :: "'s DedupeSet"
  dedupe_mapping_table' :: "'s DedupeSet"
  dedupe_vmap_table' :: "'s DedupeSet"
  dedupe_gc_map' :: "'s DedupeSet"

text \<open>
  Modelled from the spec: the constructor's body is missing. A new driver has empty
  patch lists, empty artifact tables and empty dedupe sets, and keeps the arguments
  \<open>image\<close> (here \<open>is_image\<close>) and \<open>image_classes\<close> (an optional set of class
  descriptors) as given.
\<close>

definition CompilerDriver_init :: "bool \<Rightarrow> string set option \<Rightarrow> ('s, 'i) CompilerDriver" where
  "CompilerDriver_init is_image image_classes =
     \<lparr>code_to_patch' = [], methods_to_patch' = [], classes_to_patch' = [],
      compiled_classes' = Map.empty, compiled_methods' = Map.empty,
      image' = is_image, image_classes' = image_classes,
      dedupe_code' = [], dedupe_mapping_table' = [], dedupe_vmap_table' = [],
      dedupe_gc_map' = []\<rparr>"

definition IsImage :: "('s, 'i) CompilerDriver \<Rightarrow> bool" where
  "IsImage this = image' this"

definition GetImageClasses :: "('s, 'i) CompilerDriver \<Rightarrow> string set option" where
  "GetImageClasses this = image_classes' this"

definition GetCodeToPatch :: "('s, 'i) CompilerDriver \<Rightarrow> ('s, 'i) call_patch list" where
  "GetCodeToPatch this = code_to_patch' this"

definition GetMethodsToPatch :: "('s, 'i) CompilerDriver \<Rightarrow> ('s, 'i) call_patch list" where
  "GetMethodsToPatch this = methods_to_patch' this"

definition GetClassesToPatch :: "('s, 'i) CompilerDriver \<Rightarrow> 's TypePatchInformation list" where
  "GetClassesToPatch this = classes_to_patch' this"

subsection \<open>Patch ledger\<close>

text \<open>
  Modelled from the spec: the bodies of \<open>AddCodePatch\<close>, \<open>AddRelativeCodePatch\<close>,
  \<open>AddMethodPatch\<close> and \<open>AddClassPatch\<close> are missing. Each appends a new, immutable
  record: the record is built by the constructor of its class (so a null module aborts)
  and pushed at the back of the list the function is named after; \<open>AddCodePatch\<close>
  records the absolute form, \<open>AddRelativeCodePatch\<close> the relative form.
\<close>

definition AddCodePatch ::
  "addr \<Rightarrow> 16 word \<Rightarrow> 32 word \<Rightarrow> 'i \<Rightarrow> 32 word \<Rightarrow> 'i \<Rightarrow> 's
   \<Rightarrow> ('s, 'i) CompilerDriver \<Rightarrow> error + ('s, 'i) CompilerDriver" where
  "AddCodePatch dex_file referrer_class_def_idx referrer_method_idx referrer_invoke_type
       target_method_idx target_invoke_type literal_offset this =
     (case CallPatchInformation_init dex_file referrer_class_def_idx referrer_method_idx
             referrer_invoke_type target_method_idx target_invoke_type literal_offset of
        Inl e \<Rightarrow> Inl e
      | Inr p \<Rightarrow> Inr (this\<lparr>code_to_patch' := code_to_patch' this @ [Call p]\<rparr>))"

text \<open>
  Modelled from the spec: the body of \<open>AddRelativeCodePatch\<close> is missing. The relative
  form adds a signed PC-relative displacement; the record goes to the same list as the
  absolute form's.
\<close>

definition AddRelativeCodePatch ::
  "addr \<Rightarrow> 16 word \<Rightarrow> 32 word \<Rightarrow> 'i \<Rightarrow> 32 word \<Rightarrow> 'i \<Rightarrow> 's \<Rightarrow> 32 word
   \<Rightarrow> ('s, 'i) CompilerDriver \<Rightarrow> error + ('s, 'i) CompilerDriver" where
  "AddRelativeCodePatch dex_file referrer_class_def_idx referrer_method_idx
       referrer_invoke_type target_method_idx target_invoke_type literal_offset
       pc_relative_offset this =
     (case RelativeCallPatchInformation_init dex_file referrer_class_def_idx
             referrer_method_idx referrer_invoke_type target_method_idx target_invoke_type
             literal_offset pc_relative_offset of
        Inl e \<Rightarrow> Inl e
      | Inr p \<Rightarrow> Inr (this\<lparr>code_to_patch' := code_to_patch' this @ [RelativeCall p]\<rparr>))"

text \<open>
  Modelled from the spec: the body of \<open>AddMethodPatch\<close> is missing. It appends a call
  patch to \<open>methods_to_patch_\<close>.
\<close>

definition AddMethodPatch ::
  "addr \<Rightarrow> 16 word \<Rightarrow> 32 word \<Rightarrow> 'i \<Rightarrow> 32 word \<Rightarrow> 'i \<Rightarrow> 's
   \<Rightarrow> ('s, 'i) CompilerDriver \<Rightarrow> error + ('s, 'i) CompilerDriver" where
  "AddMethodPatch dex_file referrer_class_def_idx referrer_method_idx referrer_invoke_type
       target_method_idx target_invoke_type literal_offset this =
     (case CallPatchInformation_init dex_file referrer_class_def_idx referrer_method_idx
             referrer_invoke_type target_method_idx target_invoke_type literal_offset of
        Inl e \<Rightarrow> Inl e
      | Inr p \<Rightarrow> Inr (this\<lparr>methods_to_patch' := methods_to_patch' this @ [Call p]\<rparr>))"

text \<open>
  Modelled from the spec: the body of \<open>AddClassPatch\<close> is missing. It appends a type
  patch (referrer, target type index, literal offset) to \<open>classes_to_patch_\<close>; the
  header names the type index \<open>target_method_idx\<close>.
\<close>

definition AddClassPatch ::
  "addr \<Rightarrow> 16 word \<Rightarrow> 32 word \<Rightarrow> 32 word \<Rightarrow> 's
   \<Rightarrow> ('s, 'i) CompilerDriver \<Rightarrow> error + ('s, 'i) CompilerDriver" where
  "AddClassPatch dex_file referrer_class_def_idx referrer_method_idx target_method_idx
       literal_offset this =
     (case TypePatchInformation_init dex_file referrer_class_def_idx referrer_method_idx
             target_method_idx literal_offset of
        Inl e \<Rightarrow> Inl e
      | Inr p \<Rightarrow> Inr (this\<lparr>classes_to_patch' := classes_to_patch' this @ [p]\<rparr>))"

text \<open>
  A record call, and a sequence of record calls run in order; the sequence stops at the
  first call that aborts.
\<close>

datatype ('s, 'i) patch_call =
    CodePatch addr "16 word" "32 word" 'i "32 word" 'i 's
  | RelativeCodePatch addr "16 word" "32 word" 'i "32 word" 'i 's "32 word"
  | MethodPatch addr "16 word" "32 word" 'i "32 word" 'i 's
  | ClassPatch addr "16 word" "32 word" "32 word" 's

fun dex_file_of :: "('s, 'i) patch_call \<Rightarrow> addr" where
  "dex_file_of (CodePatch d c m ri t ti l) = d"
| "dex_file_of (RelativeCodePatch d c m ri t ti l r) = d"
| "dex_file_of (MethodPatch d c m ri t ti l) = d"
| "dex_file_of (ClassPatch d c m t l) = d"

fun record_patch ::
  "('s, 'i) patch_call \<Rightarrow> ('s, 'i) CompilerDriver \<Rightarrow> error + ('s, 'i) CompilerDriver" where
  "record_patch (CodePatch d c m ri t ti l) this = AddCodePatch d c m ri t ti l this"
| "record_patch (RelativeCodePatch d c m ri t ti l r) this =
     AddRelativeCodePatch d c m ri t ti l r this"
| "record_patch (MethodPatch d c m ri t ti l) this = AddMethodPatch d c m ri t ti l this"
| "record_patch (ClassPatch d c m t l) this = AddClassPatch d c m t l this"

fun record_patches ::
  "('s, 'i) patch_call list \<Rightarrow> ('s, 'i) CompilerDriver \<Rightarrow> error + ('s, 'i) CompilerDriver" where
  "record_patches [] this = Inr this"
| "record_patches (c # cs) this =
     (case record_patch c this of Inl e \<Rightarrow> Inl e | Inr this' \<Rightarrow> record_patches cs this')"

text \<open>The records a sequence of calls adds to each list, in the order of the calls.\<close>

fun code_patches_of :: "('s, 'i) patch_call list \<Rightarrow> ('s, 'i) call_patch list" where
  "code_patches_of [] = []"
| "code_patches_of (CodePatch d c m ri t ti l # cs) =
     Call \<lparr>dex_file' = d, referrer_class_def_idx' = c, referrer_method_idx' = m,
           literal_offset' = l, referrer_invoke_type' = ri, target_method_idx' = t,
           target_invoke_type' = ti\<rparr> # code_patches_of cs"
| "code_patches_of (RelativeCodePatch d c m ri t ti l r # cs) =
     RelativeCall \<lparr>dex_file' = d, referrer_class_def_idx' = c, referrer_method_idx' = m,
           literal_offset' = l, referrer_invoke_type' = ri, target_method_idx' = t,
           target_invoke_type' = ti, offset' = r\<rparr> # code_patches_of cs"
| "code_patches_of (_ # cs) = code_patches_of cs"

fun method_patches_of :: "('s, 'i) patch_call list \<Rightarrow> ('s, 'i) call_patch list" where
  "method_patches_of [] = []"
| "method_patches_of (MethodPatch d c m ri t ti l # cs) =
     Call \<lparr>dex_file' = d, referrer_class_def_idx' = c, referrer_method_idx' = m,
           literal_offset' = l, referrer_invoke_type' = ri, target_method_idx' = t,
           target_invoke_type' = ti\<rparr> # method_patches_of cs"
| "method_patches_of (_ # cs) = method_patches_of cs"

fun class_patches_of :: "('s, 'i) patch_call list \<Rightarrow> 's TypePatchInformation list" where
  "class_patches_of [] = []"
| "class_patches_of (ClassPatch d c m t l # cs) =
     \<lparr>dex_file' = d, referrer_class_def_idx' = c, referrer_method_idx' = m,
      literal_offset' = l, target_type_idx' = t\<rparr> # class_patches_of cs"
| "class_patches_of (_ # cs) = class_patches_of cs"

subsection \<open>Dedupe store\<close>

text \<open>
  Modelled from the spec: \<open>DedupeSet::Add\<close> is missing. \<open>intern(bytes) -> handle\<close>: if an
  entry with identical content already exists, returns the existing handle and does not
  allocate a new buffer; otherwise inserts and returns a new handle. The lookup matches
  the fingerprint (\<open>DedupeHashFunc\<close>, from the source) and then the full content.
\<close>

fun find_entry :: "'s DedupeSet \<Rightarrow> 's \<Rightarrow> 8 word list \<Rightarrow> nat option" where
  "find_entry [] hash key = None"
| "find_entry ((hash', buffer) # entries) hash key =
     (if hash' = hash \<and> buffer = key then Some 0
      else map_option Suc (find_entry entries hash key))"

text \<open>
  Modelled from the spec: \<open>DedupeSet::Add\<close> is missing. Returns the existing handle of an
  entry with identical content, or inserts the content as a new entry at the end and
  returns its handle.
\<close>

definition DedupeSet_Add ::
  "8 word list \<Rightarrow> 'a::len word DedupeSet \<Rightarrow> error + (nat \<times> 'a word DedupeSet)" where
  "DedupeSet_Add key entries =
     (case DedupeHashFunc key of
        Inl e \<Rightarrow> Inl e
      | Inr hash \<Rightarrow>
          (case find_entry entries hash key of
             Some handle \<Rightarrow> Inr (handle, entries)
           | None \<Rightarrow> Inr (length entries, entries @ [(hash, key)])))"

text \<open>
  Modelled from the spec: a handle points to an owned immutable byte buffer of the
  store. The buffer behind a handle, if the handle is one of the store's.
\<close>

definition buffer_at :: "'s DedupeSet \<Rightarrow> nat \<Rightarrow> 8 word list option" where
  "buffer_at entries handle =
     (if handle < length entries then Some (snd (entries ! handle)) else None)"

text \<open>
  Modelled from the spec: the bodies of the four \<open>Deduplicate...\<close> functions are missing.
  Four independent stores are kept (code, mapping table, register map, GC map); each
  function interns into its own.
\<close>

definition DeduplicateCode ::
  "8 word list \<Rightarrow> ('a::len word, 'i) CompilerDriver
   \<Rightarrow> error + (nat \<times> ('a word, 'i) CompilerDriver)" where
  "DeduplicateCode code this =
     (case DedupeSet_Add code (dedupe_code' this) of
        Inl e \<Rightarrow> Inl e
      | Inr (handle, entries) \<Rightarrow> Inr (handle, this\<lparr>dedupe_code' := entries\<rparr>))"

text \<open>
  Modelled from the spec: the body of \<open>DeduplicateMappingTable\<close> is missing. It interns
  into the mapping-table store.
\<close>

definition DeduplicateMappingTable ::
  "8 word list \<Rightarrow> ('a::len word, 'i) CompilerDriver
   \<Rightarrow> error + (nat \<times> ('a word, 'i) CompilerDriver)" where
  "DeduplicateMappingTable code this =
     (case DedupeSet_Add code (dedupe_mapping_table' this) of
        Inl e \<Rightarrow> Inl e
      | Inr (handle, entries) \<Rightarrow> Inr (handle, this\<lparr>dedupe_mapping_table' := entries\<rparr>))"

text \<open>
  Modelled from the spec: the body of \<open>DeduplicateVMapTable\<close> is missing. It interns into
  the register-map store.
\<close>

definition DeduplicateVMapTable ::
  "8 word list \<Rightarrow> ('a::len word, 'i) CompilerDriver
   \<Rightarrow> error + (nat \<times> ('a word, 'i) CompilerDriver)" where
  "DeduplicateVMapTable code this =
     (case DedupeSet_Add code (dedupe_vmap_table' this) of
        Inl e \<Rightarrow> Inl e
      | Inr (handle, entries) \<Rightarrow> Inr (handle, this\<lparr>dedupe_vmap_table' := entries\<rparr>))"

text \<open>
  Modelled from the spec: the body of \<open>DeduplicateGCMap\<close> is missing. It interns into the
  GC-map store.
\<close>

definition DeduplicateGCMap ::
  "8 word list \<Rightarrow> ('a::len word, 'i) CompilerDriver
   \<Rightarrow> error + (nat \<times> ('a word, 'i) CompilerDriver)" where
  "DeduplicateGCMap code this =
     (case DedupeSet_Add code (dedupe_gc_map' this) of
        Inl e \<Rightarrow> Inl e
      | Inr (handle, entries) \<Rightarrow> Inr (handle, this\<lparr>dedupe_gc_map' := entries\<rparr>))"

text \<open>A dedupe call, and a sequence of dedupe calls run in order.\<close>

datatype dedupe_call =
    Code "8 word list"
  | MappingTable "8 word list"
  | VMapTable "8 word list"
  | GCMap "8 word list"

fun deduplicate ::
  "dedupe_call \<Rightarrow> ('a::len word, 'i) CompilerDriver
   \<Rightarrow> error + (nat \<times> ('a word, 'i) CompilerDriver)" where
  "deduplicate (Code code) this = DeduplicateCode code this"
| "deduplicate (MappingTable code) this = DeduplicateMappingTable code this"
| "deduplicate (VMapTable code) this = DeduplicateVMapTable code this"
| "deduplicate (GCMap code) this = DeduplicateGCMap code this"

fun deduplicate_all ::
  "dedupe_call list \<Rightarrow> ('a::len word, 'i) CompilerDriver
   \<Rightarrow> error + ('a word, 'i) CompilerDriver" where
  "deduplicate_all [] this = Inr this"
| "deduplicate_all (c # cs) this =
     (case deduplicate c this of
        Inl e \<Rightarrow> Inl e
      | Inr (handle, this') \<Rightarrow> deduplicate_all cs this')"

subsection \<open>Artifact tables\<close>

text \<open>
  Modelled from the spec: \<open>SafeMap\<close> (safe\_map.h) and the bodies of \<open>GetCompiledClass\<close>,
  \<open>GetCompiledMethod\<close> and of the insertions are missing. \<open>put_class(ref, artifact)\<close>,
  \<open>get_class(ref) -> optional\<close>, \<open>put_method(ref, artifact)\<close>,
  \<open>get_method(ref) -> optional\<close>; inserting a duplicate artifact for the same reference
  is a contract violation, treated as fatal.
\<close>

definition table_put :: "'k \<Rightarrow> 'v \<Rightarrow> ('k \<rightharpoonup> 'v) \<Rightarrow> error + ('k \<rightharpoonup> 'v)" where
  "table_put k v table =
     (case table k of
        Some _ \<Rightarrow> Inl DuplicateInsert
      | None \<Rightarrow> Inr (table(k \<mapsto> v)))"

text \<open>
  Modelled from the spec: \<open>put_class(ref, artifact)\<close>; the insertion into
  \<open>compiled_classes_\<close> is missing from the header.
\<close>

definition put_class ::
  "ClassReference \<Rightarrow> addr \<Rightarrow> ('s, 'i) CompilerDriver \<Rightarrow> error + ('s, 'i) CompilerDriver" where
  "put_class ref artifact this =
     (case table_put ref artifact (compiled_classes' this) of
        Inl e \<Rightarrow> Inl e
      | Inr table \<Rightarrow> Inr (this\<lparr>compiled_classes' := table\<rparr>))"

text \<open>
  Modelled from the spec: \<open>put_method(ref, artifact)\<close>; the insertion into
  \<open>compiled_methods_\<close> is missing from the header.
\<close>

definition put_method ::
  "MethodReference \<Rightarrow> addr \<Rightarrow> ('s, 'i) CompilerDriver \<Rightarrow> error + ('s, 'i) CompilerDriver" where
  "put_method ref artifact this =
     (case table_put ref artifact (compiled_methods' this) of
        Inl e \<Rightarrow> Inl e
      | Inr table \<Rightarrow> Inr (this\<lparr>compiled_methods' := table\<rparr>))"

text \<open>
  Modelled from the spec: the body of \<open>GetCompiledClass\<close> is missing.
  \<open>get_class(ref) -> optional\<close>.
\<close>

definition GetCompiledClass :: "ClassReference \<Rightarrow> ('s, 'i) CompilerDriver \<Rightarrow> addr option" where
  "GetCompiledClass ref this = compiled_classes' this ref"

text \<open>
  Modelled from the spec: the body of \<open>GetCompiledMethod\<close> is missing.
  \<open>get_method(ref) -> optional\<close>.
\<close>

definition GetCompiledMethod :: "MethodReference \<Rightarrow> ('s, 'i) CompilerDriver \<Rightarrow> addr option" where
  "GetCompiledMethod ref this = compiled_methods' this ref"

text \<open>The insertions of a run, in order; the run stops at the first that aborts.\<close>

datatype put_call =
    PutClass ClassReference addr
  | PutMethod MethodReference addr

fun put_artifact ::
  "put_call \<Rightarrow> ('s, 'i) CompilerDriver \<Rightarrow> error + ('s, 'i) CompilerDriver" where
  "put_artifact (PutClass ref artifact) this = put_class ref artifact this"
| "put_artifact (PutMethod ref artifact) this = put_method ref artifact this"

fun put_artifacts ::
  "put_call list \<Rightarrow> ('s, 'i) CompilerDriver \<Rightarrow> error + ('s, 'i) CompilerDriver" where
  "put_artifacts [] this = Inr this"
| "put_artifacts (c # cs) this =
     (case put_artifact c this of Inl e \<Rightarrow> Inl e | Inr this' \<Rightarrow> put_artifacts cs this')"

fun class_puts :: "put_call list \<Rightarrow> (ClassReference \<times> addr) list" where
  "class_puts [] = []"
| "class_puts (PutClass ref artifact # cs) = (ref, artifact) # class_puts cs"
| "class_puts (PutMethod ref artifact # cs) = class_puts cs"

fun method_puts :: "put_call list \<Rightarrow> (MethodReference \<times> addr) list" where
  "method_puts [] = []"
| "method_puts (PutClass ref artifact # cs) = method_puts cs"
| "method_puts (PutMethod ref artifact # cs) = (ref, artifact) # method_puts cs"

subsection \<open>Image classes\<close>

text \<open>
  Modelled from the spec: the body of \<open>IsImageClass\<close> is missing. The image-class set is
  an optional set of class descriptors; when absent, all classes are eligible.
\<close>

definition IsImageClass :: "string \<Rightarrow> ('s, 'i) CompilerDriver \<Rightarrow> bool" where
  "IsImageClass descriptor this =
     (case GetImageClasses this of
        None \<Rightarrow> True
      | Some classes \<Rightarrow> descriptor \<in> classes)"

section \<open>Properties\<close>

subsection \<open>Words: multiplying by an odd number and xor-shifting are injective\<close>

lemma odd_unat: "odd (c :: 'a::len word) \<Longrightarrow> odd (unat c)"
  by (metis even_of_nat mult.right_neutral unsigned_1 word_arith_nat_mult)

lemma odd_mult_word_inj:
  fixes x y c :: "'a::len word"
  assumes "odd c" "x * c = y * c"
  shows "x = y"
proof -
  have "(x - y) * c = 0" using assms(2) by (simp add: algebra_simps)
  then have "unat ((x - y) * c) = 0" by simp
  then have "(unat (x - y) * unat c) mod 2 ^ LENGTH('a) = 0" by (simp add: unat_word_ariths)
  then have "2 ^ LENGTH('a) dvd unat (x - y) * unat c" by (simp add: mod_eq_0_iff_dvd)
  moreover have "odd (unat c)" using assms(1) by (rule odd_unat)
  then have "coprime (2 ^ LENGTH('a)) (unat c)" by simp
  ultimately have "2 ^ LENGTH('a) dvd unat (x - y)" by (simp add: coprime_dvd_mult_left_iff)
  moreover have "unat (x - y) < 2 ^ LENGTH('a)" by simp
  ultimately have "unat (x - y) = 0" using nat_dvd_not_less by blast
  then show ?thesis by (simp add: unat_0_iff)
qed

lemma word_xor_right_cancel: "(a :: 'a::len word) XOR c = b XOR c \<Longrightarrow> a = b"
proof -
  assume "a XOR c = b XOR c"
  then have "(a XOR c) XOR c = (b XOR c) XOR c" by (rule arg_cong)
  then show ?thesis by (simp add: xor.assoc)
qed

lemma word_xor_left_cancel: "c XOR (a :: 'a::len word) = c XOR b \<Longrightarrow> a = b"
  by (rule word_xor_right_cancel [of a c b]) (simp add: xor.commute)

lemma drop_bit_fixpoint:
  fixes z :: "'a::len word"
  assumes "0 < n" "z = drop_bit n z"
  shows "z = 0"
proof -
  have "unat z = unat z div 2 ^ n" using assms(2) by (metis unat_drop_bit_eq drop_bit_eq_div)
  moreover have "(2::nat) \<le> 2 ^ n" using assms(1) by (metis One_nat_def Suc_leI one_le_numeral power_increasing power_one_right)
  ultimately have "unat z = 0"
    by (metis div_less_dividend less_le_trans one_less_numeral_iff semiring_norm(76) not_gr_zero less_irrefl)
  then show ?thesis by (simp add: unat_0_iff)
qed

lemma xorshift_inj:
  fixes x y :: "'a::len word"
  assumes "0 < n" "x XOR drop_bit n x = y XOR drop_bit n y"
  shows "x = y"
proof -
  have "(x XOR y) XOR drop_bit n (x XOR y) = (x XOR drop_bit n x) XOR (y XOR drop_bit n y)"
    by (simp add: ac_simps)
  then have "(x XOR y) XOR drop_bit n (x XOR y) = 0" using assms(2) by simp
  then have "(x XOR y) XOR drop_bit n (x XOR y) = drop_bit n (x XOR y) XOR drop_bit n (x XOR y)"
    by simp
  then have "x XOR y = drop_bit n (x XOR y)" by (rule word_xor_right_cancel)
  then have "x XOR y = 0" using assms(1) drop_bit_fixpoint by blast
  then have "x XOR y = y XOR y" by simp
  then show ?thesis by (rule word_xor_right_cancel)
qed

lemma addshift_inj:
  fixes x y :: "'a::len word"
  assumes "0 < n" "x + push_bit n x = y + push_bit n y"
  shows "x = y"
proof -
  have "x * (1 + 2 ^ n) = y * (1 + 2 ^ n)"
    using assms(2) by (simp add: push_bit_eq_mult algebra_simps)
  moreover have "odd (1 + 2 ^ n :: 'a word)" using assms(1) by simp
  ultimately show ?thesis by (rule odd_mult_word_inj [rotated])
qed

lemma ucast_inj8: "8 \<le> LENGTH('a::len) \<Longrightarrow> (ucast (a :: 8 word) :: 'a word) = ucast b \<Longrightarrow> a = b"
  by (metis is_up ucast_up_ucast_id len_bit0 len_num1 mult_2 numeral_Bit0 numeral_One)

lemma final_mix_inj: "final_mix x = final_mix y \<Longrightarrow> x = y"
  unfolding final_mix_def Let_def
  by (blast dest: addshift_inj [rotated] xorshift_inj [rotated] intro: zero_less_numeral)

subsection \<open>The hash\<close>

lemma hash_byte_inj_hash: "hash_byte h b = hash_byte h' b \<Longrightarrow> h = h'"
proof -
  assume "hash_byte h b = hash_byte h' b"
  then have "h * 16777619 = h' * 16777619"
    unfolding hash_byte_def by (rule word_xor_right_cancel)
  moreover have "odd (16777619 :: 'a word)" by simp
  ultimately show ?thesis by (rule odd_mult_word_inj [rotated])
qed

lemma hash_byte_inj_byte:
  "8 \<le> LENGTH('a::len) \<Longrightarrow> hash_byte (h :: 'a word) b = hash_byte h b' \<Longrightarrow> b = b'"
  unfolding hash_byte_def by (blast dest: ucast_inj8 word_xor_left_cancel)

lemma foldl_hash_byte_inj: "foldl hash_byte h bs = foldl hash_byte h' bs \<Longrightarrow> h = h'"
  by (induction bs arbitrary: h h') (auto dest: hash_byte_inj_hash)

lemma hash_every_byte_foldl: "hash_every_byte h bs = foldl hash_byte h bs"
  by (induction bs arbitrary: h) auto

lemma foldl_hash_byte_update:
  assumes "8 \<le> LENGTH('a::len)" "i < length bs" "v \<noteq> bs ! i"
  shows "foldl hash_byte (h :: 'a word) (bs[i := v]) \<noteq> foldl hash_byte h bs"
proof
  assume eq: "foldl hash_byte h (bs[i := v]) = foldl hash_byte h bs"
  have l: "bs[i := v] = take i bs @ v # drop (Suc i) bs"
    using assms(2) by (rule upd_conv_take_nth_drop)
  have r: "bs = take i bs @ bs ! i # drop (Suc i) bs"
    using assms(2) by (rule id_take_nth_drop)
  have "foldl hash_byte (hash_byte (foldl hash_byte h (take i bs)) v) (drop (Suc i) bs)
      = foldl hash_byte (hash_byte (foldl hash_byte h (take i bs)) (bs ! i)) (drop (Suc i) bs)"
    using eq by (subst (asm) l, subst (asm) (3) r) simp
  then have "hash_byte (foldl hash_byte h (take i bs)) v
           = hash_byte (foldl hash_byte h (take i bs)) (bs ! i)"
    by (rule foldl_hash_byte_inj)
  then have "v = bs ! i" using assms(1) by (rule hash_byte_inj_byte [rotated])
  then show False using assms(3) by simp
qed

lemma random_index_less: "0 < n \<Longrightarrow> random_index T i n < n"
  by (simp add: random_index_def)

lemma hash_push_bytes_closed:
  "7 < length array \<Longrightarrow>
   hash_push_bytes array 0 h = Inr (foldl hash_byte h [array ! 6, array ! 7])"
  by (simp add: at_def)

lemma hash_random_bytes_closed:
  "0 < length array \<Longrightarrow> i \<le> 16 \<Longrightarrow>
   hash_random_bytes array i (h :: 'a::len word) =
     Inr (foldl hash_byte h
       (map (\<lambda>j. array ! random_index TYPE('a) j (length array)) [i..<16]))"
proof (induction array i h rule: hash_random_bytes.induct)
  case (1 array i hash)
  show ?case
  proof (cases "i < 16")
    case True
    let ?p = "random_index TYPE('a) i (length array)"
    have at: "at array ?p = Inr (array ! ?p)"
      using "1.prems"(1) by (simp add: at_def random_index_less)
    have step: "hash_random_bytes array i hash
        = hash_random_bytes array (i + 1) (hash_byte hash (array ! ?p))"
      using True at by (subst hash_random_bytes.simps) (simp add: kRandomHashCount_def)
    have "hash_random_bytes array (i + 1) (hash_byte hash (array ! ?p)) =
      Inr (foldl hash_byte (hash_byte hash (array ! ?p))
        (map (\<lambda>j. array ! random_index TYPE('a) j (length array)) [i + 1..<16]))"
      using True at "1.prems"(1) by (intro "1.IH") (simp_all add: kRandomHashCount_def)
    moreover have "[i..<16] = i # [i + 1..<16]"
      using True by (simp add: upt_conv_Cons)
    ultimately show ?thesis using step by simp
  next
    case False
    with "1.prems"(2) have "i = 16" by simp
    then show ?thesis
      by (subst hash_random_bytes.simps) (simp add: kRandomHashCount_def)
  qed
qed

lemma DedupeHashFunc_large_closed:
  assumes "16 < length array"
  shows "(DedupeHashFunc array :: error + 'a::len word) =
     Inr (final_mix (foldl hash_byte 0x811c9dc5
            (map ((!) array) (sample_positions TYPE('a) (length array)))))"
proof -
  let ?h = "foldl hash_byte (0x811c9dc5 :: 'a word) [array ! 6, array ! 7]"
  have push: "hash_push_bytes array 0 (0x811c9dc5 :: 'a word) = Inr ?h"
    using assms by (intro hash_push_bytes_closed) simp
  have rand: "hash_random_bytes array 2 ?h =
      Inr (foldl hash_byte ?h
        (map (\<lambda>j. array ! random_index TYPE('a) j (length array)) [2..<16]))"
    using assms by (intro hash_random_bytes_closed) auto
  have "\<not> length array \<le> kSmallArrayThreshold"
    using assms by (simp add: kSmallArrayThreshold_def)
  moreover have "map ((!) array) (sample_positions TYPE('a) (length array)) =
      [array ! 6, array ! 7] @
      map (\<lambda>j. array ! random_index TYPE('a) j (length array)) [2..<16]"
    by (simp only: sample_positions_def map_append list.map map_map comp_def)
  ultimately show ?thesis
    unfolding DedupeHashFunc_def Let_def
    by (simp only: if_False push rand sum.case foldl_append)
qed

lemma sample_positions_in_range:
  "16 < n \<Longrightarrow> p \<in> set (sample_positions T n) \<Longrightarrow> p < n"
  by (auto simp: sample_positions_def random_index_less)

lemma length_sample_positions: "length (sample_positions T n) = 16"
  by (simp add: sample_positions_def)

lemma sample_positions_64:
  "sample_positions TYPE(64) n =
     [6, 7] @ map (\<lambda>i. (i * 1103515245 + 12345) mod n) [2..<16]"
  by (simp add: sample_positions_def random_index_def)

lemma sample_positions_32:
  "sample_positions TYPE(32) n =
     [6, 7] @ map (\<lambda>i. ((i * 1103515245 + 12345) mod 2 ^ 32) mod n) [2..<16]"
  by (simp add: sample_positions_def random_index_def)

lemma DedupeHashFunc_small_closed:
  "length array \<le> 16 \<Longrightarrow>
   DedupeHashFunc array = Inr (final_mix (foldl hash_byte 0x811c9dc5 array))"
  by (simp add: DedupeHashFunc_def kSmallArrayThreshold_def hash_every_byte_foldl)

lemma DedupeHashFunc_total: "\<exists>hash. DedupeHashFunc array = Inr hash"
proof (cases "length array \<le> 16")
  case True
  then show ?thesis by (simp add: DedupeHashFunc_small_closed)
next
  case False
  then have "16 < length array" by simp
  then show ?thesis by (simp add: DedupeHashFunc_large_closed)
qed

text \<open>
  C3: for every byte array of at most 16 bytes (the small-size threshold),
  \<open>DedupeHashFunc\<close> returns the final mixing of the fold of every byte of the array, in
  order, into the accumulator (multiply by 16777619, then XOR with the byte), starting
  from 0x811c9dc5. The hash incorporates every byte: where \<open>size_t\<close> has at least 8 bits,
  changing any single byte of the array changes the hash.
\<close>

theorem DedupeHashFunc_small_folds_every_byte:
  fixes array :: "8 word list"
  assumes "length array \<le> 16"
  shows "(DedupeHashFunc array :: error + 'a::len word) =
           Inr (final_mix
                 (foldl (\<lambda>hash b. (hash * 16777619) XOR ucast b) 0x811c9dc5 array))
       \<and> (\<forall>i v. 8 \<le> LENGTH('a) \<longrightarrow> i < length array \<longrightarrow> v \<noteq> array ! i \<longrightarrow>
             (DedupeHashFunc (array[i := v]) :: error + 'a word) \<noteq> DedupeHashFunc array)"
proof (intro conjI allI impI)
  have "hash_byte = (\<lambda>(hash :: 'a word) b. (hash * 16777619) XOR ucast b)"
    by (intro ext) (simp add: hash_byte_def)
  then show "(DedupeHashFunc array :: error + 'a word) =
      Inr (final_mix (foldl (\<lambda>hash b. (hash * 16777619) XOR ucast b) 0x811c9dc5 array))"
    using assms by (simp add: DedupeHashFunc_small_closed)
next
  fix i v
  assume len: "8 \<le> LENGTH('a)" and i: "i < length array" and v: "v \<noteq> array ! i"
  have "foldl hash_byte (0x811c9dc5 :: 'a word) (array[i := v])
      \<noteq> foldl hash_byte 0x811c9dc5 array"
    using len i v by (rule foldl_hash_byte_update)
  then have "final_mix (foldl hash_byte (0x811c9dc5 :: 'a word) (array[i := v]))
      \<noteq> final_mix (foldl hash_byte 0x811c9dc5 array)"
    by (blast dest: final_mix_inj)
  then show "(DedupeHashFunc (array[i := v]) :: error + 'a word) \<noteq> DedupeHashFunc array"
    using assms by (simp add: DedupeHashFunc_small_closed)
qed

theorem DedupeHashFunc_small_witness:
  "length [1, 2, 3 :: 8 word] \<le> 16
   \<and> (DedupeHashFunc [1, 2, 3] :: error + 32 word) = Inr 2194960030
   \<and> (DedupeHashFunc [1, 9, 3] :: error + 32 word) \<noteq> DedupeHashFunc [1, 2, 3]"
proof -
  have len: "length [1, 2, 3 :: 8 word] \<le> 16" by simp
  note t = DedupeHashFunc_small_folds_every_byte [OF len, where 'a = 32]
  have "(DedupeHashFunc [1, 2, 3] :: error + 32 word) = Inr 2194960030"
    using t by (simp add: final_mix_def)
  moreover have "(DedupeHashFunc ([1, 2, 3][1 := 9]) :: error + 32 word)
      \<noteq> DedupeHashFunc [1, 2, 3]"
    using t by (elim conjE allE [where x = 1] allE [where x = 9]) simp
  ultimately show ?thesis using len by simp
qed

text \<open>
  C4: for every byte array of more than 16 bytes, \<open>DedupeHashFunc\<close> reads exactly 16
  byte positions: 6 and 7, then for each \<open>i\<close> in 2..15 the position
  \<open>(i * 1103515245 + 12345) mod size\<close>, the product and the sum computed in \<open>size_t\<close>.
  Every one of them lies inside the array, so the evaluation never indexes out of range
  and returns the final mixing of the fold of the bytes at those positions. The positions
  depend on the size of the array only: two arrays of one size that agree at those
  positions have equal hashes.
\<close>

theorem DedupeHashFunc_large_samples_in_bounds:
  fixes array :: "8 word list"
  assumes "16 < length array"
  shows "sample_positions TYPE('a::len) (length array) =
           [6, 7] @ map (\<lambda>i. unat (of_nat i * 1103515245 + 12345 :: 'a word)
                               mod length array) [2..<16]
       \<and> length (sample_positions TYPE('a) (length array)) = 16
       \<and> (\<forall>p \<in> set (sample_positions TYPE('a) (length array)). p < length array)
       \<and> (DedupeHashFunc array :: error + 'a word) =
           Inr (final_mix
                 (foldl (\<lambda>hash b. (hash * 16777619) XOR ucast b) 0x811c9dc5
                    (map (\<lambda>p. array ! p) (sample_positions TYPE('a) (length array)))))
       \<and> (\<forall>array'. length array' = length array \<longrightarrow>
             (\<forall>p \<in> set (sample_positions TYPE('a) (length array)). array' ! p = array ! p) \<longrightarrow>
             (DedupeHashFunc array' :: error + 'a word) = DedupeHashFunc array)"
proof (intro conjI allI impI)
  show "sample_positions TYPE('a) (length array) =
      [6, 7] @ map (\<lambda>i. unat (of_nat i * 1103515245 + 12345 :: 'a word)
                          mod length array) [2..<16]"
    unfolding sample_positions_def random_index_def by (rule refl)
next
  show "length (sample_positions TYPE('a) (length array)) = 16"
    by (rule length_sample_positions)
next
  show "\<forall>p \<in> set (sample_positions TYPE('a) (length array)). p < length array"
    using assms by (blast intro: sample_positions_in_range)
next
  have "hash_byte = (\<lambda>(hash :: 'a word) b. (hash * 16777619) XOR ucast b)"
    by (intro ext) (simp add: hash_byte_def)
  then show "(DedupeHashFunc array :: error + 'a word) =
      Inr (final_mix
            (foldl (\<lambda>hash b. (hash * 16777619) XOR ucast b) 0x811c9dc5
               (map (\<lambda>p. array ! p) (sample_positions TYPE('a) (length array)))))"
    using DedupeHashFunc_large_closed [OF assms, where 'a = 'a] by simp
next
  fix array' :: "8 word list"
  assume len: "length array' = length array"
    and same: "\<forall>p \<in> set (sample_positions TYPE('a) (length array)). array' ! p = array ! p"
  have maps: "map ((!) array') (sample_positions TYPE('a) (length array))
      = map ((!) array) (sample_positions TYPE('a) (length array))"
    using same by (intro map_cong refl) blast
  have "16 < length array'" using assms len by simp
  then have "(DedupeHashFunc array' :: error + 'a word) =
      Inr (final_mix (foldl hash_byte 0x811c9dc5
            (map ((!) array') (sample_positions TYPE('a) (length array')))))"
    by (rule DedupeHashFunc_large_closed)
  also have "\<dots> = Inr (final_mix (foldl hash_byte 0x811c9dc5
            (map ((!) array) (sample_positions TYPE('a) (length array)))))"
    by (simp only: len maps)
  also have "\<dots> = (DedupeHashFunc array :: error + 'a word)"
    using assms by (rule DedupeHashFunc_large_closed [symmetric])
  finally show "(DedupeHashFunc array' :: error + 'a word) = DedupeHashFunc array" .
qed

theorem DedupeHashFunc_large_witness:
  "16 < length [0, 1, 2, 3, 4, 5, 6, 7, 8, 9, 10, 11, 12, 13, 14, 15, 16 :: 8 word]
   \<and> sample_positions TYPE(64) 17 = [6, 7, 2, 10, 1, 9, 0, 8, 16, 7, 15, 6, 14, 5, 13, 4]
   \<and> (DedupeHashFunc [0, 1, 2, 3, 4, 5, 6, 7, 8, 9, 10, 11, 12, 13, 14, 15, 16]
        :: error + 64 word) = Inr 7508888615229393878
   \<and> (DedupeHashFunc [0, 1, 2, 77, 4, 5, 6, 7, 8, 9, 10, 11, 12, 13, 14, 15, 16]
        :: error + 64 word) = Inr 7508888615229393878"
proof -
  let ?array = "[0, 1, 2, 3, 4, 5, 6, 7, 8, 9, 10, 11, 12, 13, 14, 15, 16 :: 8 word]"
  let ?array' = "[0, 1, 2, 77, 4, 5, 6, 7, 8, 9, 10, 11, 12, 13, 14, 15, 16 :: 8 word]"
  have len: "16 < length ?array" by simp
  note t = DedupeHashFunc_large_samples_in_bounds [OF len, where 'a = 64]
  have pos: "sample_positions TYPE(64) 17 = [6, 7, 2, 10, 1, 9, 0, 8, 16, 7, 15, 6, 14, 5, 13, 4]"
    by (simp add: sample_positions_64)
  have h: "(DedupeHashFunc ?array :: error + 64 word) = Inr 7508888615229393878"
    using t pos by (simp add: final_mix_def)
  have l17: "length ?array = 17" by simp
  have "length ?array' = length ?array" by simp
  moreover have "\<forall>p \<in> set (sample_positions TYPE(64) (length ?array)). ?array' ! p = ?array ! p"
    unfolding l17 pos by simp
  ultimately have "(DedupeHashFunc ?array' :: error + 64 word) = DedupeHashFunc ?array"
    using t by blast
  then show ?thesis using len pos h by simp
qed

subsection \<open>Patch records\<close>

lemma PatchInformation_init_eq:
  "PatchInformation_init d c m l =
     (if d \<noteq> NULL
      then Inr \<lparr>dex_file' = d, referrer_class_def_idx' = c,
                referrer_method_idx' = m, literal_offset' = l\<rparr>
      else Inl CheckFailed)"
  by (simp add: PatchInformation_init_def)

lemma CallPatchInformation_init_eq:
  "CallPatchInformation_init d c m ri t ti l =
     (if d \<noteq> NULL
      then Inr \<lparr>dex_file' = d, referrer_class_def_idx' = c,
                referrer_method_idx' = m, literal_offset' = l,
                referrer_invoke_type' = ri, target_method_idx' = t,
                target_invoke_type' = ti\<rparr>
      else Inl CheckFailed)"
  by (simp add: CallPatchInformation_init_def PatchInformation_init_eq)

lemma RelativeCallPatchInformation_init_eq:
  "RelativeCallPatchInformation_init d c m ri t ti l r =
     (if d \<noteq> NULL
      then Inr \<lparr>dex_file' = d, referrer_class_def_idx' = c,
                referrer_method_idx' = m, literal_offset' = l,
                referrer_invoke_type' = ri, target_method_idx' = t,
                target_invoke_type' = ti, offset' = r\<rparr>
      else Inl CheckFailed)"
  by (simp add: RelativeCallPatchInformation_init_def CallPatchInformation_init_eq)

lemma TypePatchInformation_init_eq:
  "TypePatchInformation_init d c m t l =
     (if d \<noteq> NULL
      then Inr \<lparr>dex_file' = d, referrer_class_def_idx' = c,
                referrer_method_idx' = m, literal_offset' = l,
                target_type_idx' = t\<rparr>
      else Inl CheckFailed)"
  by (simp add: TypePatchInformation_init_def PatchInformation_init_eq)

lemma PatchInformation_init_Inr:
  "PatchInformation_init d c m l = Inr p \<longleftrightarrow>
     d \<noteq> NULL \<and> p = \<lparr>dex_file' = d, referrer_class_def_idx' = c,
                         referrer_method_idx' = m, literal_offset' = l\<rparr>"
  by (auto simp: PatchInformation_init_eq)

lemma CallPatchInformation_init_Inr:
  "CallPatchInformation_init d c m ri t ti l = Inr p \<longleftrightarrow>
     d \<noteq> NULL \<and> p = \<lparr>dex_file' = d, referrer_class_def_idx' = c,
                         referrer_method_idx' = m, literal_offset' = l,
                         referrer_invoke_type' = ri, target_method_idx' = t,
                         target_invoke_type' = ti\<rparr>"
  by (auto simp: CallPatchInformation_init_eq)

lemma RelativeCallPatchInformation_init_Inr:
  "RelativeCallPatchInformation_init d c m ri t ti l r = Inr p \<longleftrightarrow>
     d \<noteq> NULL \<and> p = \<lparr>dex_file' = d, referrer_class_def_idx' = c,
                         referrer_method_idx' = m, literal_offset' = l,
                         referrer_invoke_type' = ri, target_method_idx' = t,
                         target_invoke_type' = ti, offset' = r\<rparr>"
  by (auto simp: RelativeCallPatchInformation_init_eq)

lemma TypePatchInformation_init_Inr:
  "TypePatchInformation_init d c m t l = Inr p \<longleftrightarrow>
     d \<noteq> NULL \<and> p = \<lparr>dex_file' = d, referrer_class_def_idx' = c,
                         referrer_method_idx' = m, literal_offset' = l,
                         target_type_idx' = t\<rparr>"
  by (auto simp: TypePatchInformation_init_eq)

lemma PatchInformation_init_NULL: "PatchInformation_init NULL c m l = Inl CheckFailed"
  by (simp add: PatchInformation_init_eq)

lemma CallPatchInformation_init_NULL:
  "CallPatchInformation_init NULL c m ri t ti l = Inl CheckFailed"
  by (simp add: CallPatchInformation_init_eq)

lemma RelativeCallPatchInformation_init_NULL:
  "RelativeCallPatchInformation_init NULL c m ri t ti l r = Inl CheckFailed"
  by (simp add: RelativeCallPatchInformation_init_eq)

lemma TypePatchInformation_init_NULL:
  "TypePatchInformation_init NULL c m t l = Inl CheckFailed"
  by (simp add: TypePatchInformation_init_eq)

lemmas patch_getters =
  GetDexFile_def GetReferrerClassDefIdx_def GetReferrerMethodIdx_def GetLiteralOffset_def
  GetReferrerInvokeType_def GetTargetMethodIdx_def GetTargetInvokeType_def
  GetTargetTypeIdx_def

text \<open>
  C6: a patch record round-trips its construction arguments. For a call patch built (by
  the constructor of \<open>CallPatchInformation\<close>, or by that of
  \<open>RelativeCallPatchInformation\<close> with a displacement) from a module, a referrer
  class-def index, a referrer method index, a referrer invoke kind, a target method
  index, a target invoke kind and a literal offset, the getters \<open>GetDexFile\<close>,
  \<open>GetReferrerClassDefIdx\<close>, \<open>GetReferrerMethodIdx\<close>, \<open>GetReferrerInvokeType\<close>,
  \<open>GetTargetMethodIdx\<close>, \<open>GetTargetInvokeType\<close> and \<open>GetLiteralOffset\<close> return exactly
  those values; likewise for a type patch and \<open>GetTargetTypeIdx\<close>. The fields are
  \<open>const\<close>: the record is a value, a getter returns a field and no function of the class
  returns a changed record (\<open>AsCall\<close> and \<open>AsType\<close> return the object itself).
\<close>

theorem patch_getters_return_constructor_arguments:
  "(CallPatchInformation_init d c m ri t ti l = Inr p \<longrightarrow>
      GetDexFile p = Inr d \<and> GetReferrerClassDefIdx p = c \<and> GetReferrerMethodIdx p = m
      \<and> GetReferrerInvokeType p = ri \<and> GetTargetMethodIdx p = t
      \<and> GetTargetInvokeType p = ti \<and> GetLiteralOffset p = l
      \<and> AsCall (CallPatch (Call p)) = Inr (Call p))
   \<and> (RelativeCallPatchInformation_init d c m ri t ti l r = Inr q \<longrightarrow>
      GetDexFile q = Inr d \<and> GetReferrerClassDefIdx q = c \<and> GetReferrerMethodIdx q = m
      \<and> GetReferrerInvokeType q = ri \<and> GetTargetMethodIdx q = t
      \<and> GetTargetInvokeType q = ti \<and> GetLiteralOffset q = l
      \<and> AsCall (CallPatch (RelativeCall q)) = Inr (RelativeCall q))
   \<and> (TypePatchInformation_init d c m tt l = Inr u \<longrightarrow>
      GetDexFile u = Inr d \<and> GetReferrerClassDefIdx u = c \<and> GetReferrerMethodIdx u = m
      \<and> GetTargetTypeIdx u = tt \<and> GetLiteralOffset u = l
      \<and> AsType (TypePatch u) = Inr u)"
  by (simp add: CallPatchInformation_init_Inr RelativeCallPatchInformation_init_Inr
      TypePatchInformation_init_Inr patch_getters)

theorem patch_getters_witness:
  "(\<exists>p. CallPatchInformation_init 4096 3 17 True 42 False (128 :: 32 word) = Inr p
        \<and> GetDexFile p = Inr 4096 \<and> GetReferrerClassDefIdx p = 3
        \<and> GetReferrerMethodIdx p = 17 \<and> GetReferrerInvokeType p = True
        \<and> GetTargetMethodIdx p = 42 \<and> GetTargetInvokeType p = False
        \<and> GetLiteralOffset p = 128)
   \<and> (\<exists>q. RelativeCallPatchInformation_init 4096 3 17 True 42 False (128 :: 32 word) (-8)
          = Inr q
        \<and> GetDexFile q = Inr 4096 \<and> GetTargetMethodIdx q = 42 \<and> GetLiteralOffset q = 128)
   \<and> (\<exists>u. TypePatchInformation_init 4096 3 17 9 (128 :: 32 word) = Inr u
        \<and> GetDexFile u = Inr 4096 \<and> GetTargetTypeIdx u = 9 \<and> GetLiteralOffset u = 128)"
proof -
  obtain p where p: "CallPatchInformation_init 4096 3 17 True 42 False (128 :: 32 word) = Inr p"
    by (simp add: CallPatchInformation_init_Inr NULL_def)
  obtain q where q:
    "RelativeCallPatchInformation_init 4096 3 17 True 42 False (128 :: 32 word) (-8) = Inr q"
    by (simp add: RelativeCallPatchInformation_init_Inr NULL_def)
  obtain u where u: "TypePatchInformation_init 4096 3 17 9 (128 :: 32 word) = Inr u"
    by (simp add: TypePatchInformation_init_Inr NULL_def)
  show ?thesis
    using patch_getters_return_constructor_arguments
      [of 4096 3 17 True 42 False "128 :: 32 word" p "-8" q 9 u] p q u
    by simp
qed

text \<open>
  C7: a call patch built without a PC-relative displacement (an object of class
  \<open>CallPatchInformation\<close>) answers \<open>IsRelative() = false\<close> and \<open>RelativeOffset() = 0\<close>; a
  call patch built with the displacement \<open>r\<close> (an object of class
  \<open>RelativeCallPatchInformation\<close>) answers \<open>IsRelative() = true\<close> and
  \<open>RelativeOffset() = r\<close>.
\<close>

theorem call_patch_absolute_or_relative:
  "(CallPatchInformation_init d c m ri t ti l = Inr p \<longrightarrow>
      IsRelative (Call p) = False \<and> RelativeOffset (Call p) = 0)
   \<and> (RelativeCallPatchInformation_init d c m ri t ti l r = Inr q \<longrightarrow>
      IsRelative (RelativeCall q) = True \<and> RelativeOffset (RelativeCall q) = r)"
  by (simp add: RelativeCallPatchInformation_init_Inr)

theorem call_patch_absolute_or_relative_witness:
  "(\<exists>p. CallPatchInformation_init 4096 3 17 True 42 False (128 :: 32 word) = Inr p
        \<and> \<not> IsRelative (Call p) \<and> RelativeOffset (Call p) = 0)
   \<and> (\<exists>q. RelativeCallPatchInformation_init 4096 3 17 True 42 False (128 :: 32 word) (-8)
          = Inr q
        \<and> IsRelative (RelativeCall q) \<and> RelativeOffset (RelativeCall q) = -8)"
proof -
  obtain p where p: "CallPatchInformation_init 4096 3 17 True 42 False (128 :: 32 word) = Inr p"
    by (simp add: CallPatchInformation_init_Inr NULL_def)
  obtain q where q:
    "RelativeCallPatchInformation_init 4096 3 17 True 42 False (128 :: 32 word) (-8) = Inr q"
    by (simp add: RelativeCallPatchInformation_init_Inr NULL_def)
  show ?thesis
    using call_patch_absolute_or_relative [of 4096 3 17 True 42 False "128 :: 32 word" p "-8" q]
      p q
    by simp
qed

text \<open>
  C10: for every patch record at most one of \<open>IsCall()\<close> and \<open>IsType()\<close> is true: a call
  patch (absolute or relative) answers \<open>IsCall() = true\<close> and \<open>IsType() = false\<close>, a type
  patch the reverse. \<open>AsCall()\<close> on a record whose \<open>IsCall()\<close> is false and \<open>AsType()\<close> on
  a record whose \<open>IsType()\<close> is false are fatal (the unreachable branch), and they return
  the record itself otherwise. Every constructor of a patch record aborts on a null
  module.
\<close>

theorem patch_variant_tags_exclusive:
  "\<not> (IsCall x \<and> IsType x)
   \<and> IsCall (CallPatch cp) \<and> \<not> IsType (CallPatch cp)
   \<and> IsType (TypePatch tp :: ('s, 'i) patch) \<and> \<not> IsCall (TypePatch tp :: ('s, 'i) patch)
   \<and> (\<not> IsCall x \<longrightarrow> AsCall x = Inl FatalUnreachable)
   \<and> (\<not> IsType x \<longrightarrow> AsType x = Inl FatalUnreachable)
   \<and> (IsCall x \<longrightarrow> (\<exists>y. AsCall x = Inr y \<and> x = CallPatch y))
   \<and> (IsType x \<longrightarrow> (\<exists>y. AsType x = Inr y \<and> x = TypePatch y))
   \<and> PatchInformation_init NULL c m (l :: 's) = Inl CheckFailed
   \<and> CallPatchInformation_init NULL c m (ri :: 'i) t ti l = Inl CheckFailed
   \<and> RelativeCallPatchInformation_init NULL c m ri t ti l r = Inl CheckFailed
   \<and> TypePatchInformation_init NULL c m tt l = Inl CheckFailed"
  by (cases x)
    (simp_all add: PatchInformation_init_NULL CallPatchInformation_init_NULL
      RelativeCallPatchInformation_init_NULL TypePatchInformation_init_NULL)

theorem patch_variant_tags_witness:
  "\<not> IsCall (TypePatch \<lparr>dex_file' = 4096, referrer_class_def_idx' = 3,
        referrer_method_idx' = 17, literal_offset' = 128 :: 32 word,
        target_type_idx' = 9\<rparr> :: (32 word, bool) patch)
   \<and> AsCall (TypePatch \<lparr>dex_file' = 4096, referrer_class_def_idx' = 3,
        referrer_method_idx' = 17, literal_offset' = 128 :: 32 word,
        target_type_idx' = 9\<rparr> :: (32 word, bool) patch) = Inl FatalUnreachable
   \<and> IsType (TypePatch \<lparr>dex_file' = 4096, referrer_class_def_idx' = 3,
        referrer_method_idx' = 17, literal_offset' = 128 :: 32 word,
        target_type_idx' = 9\<rparr> :: (32 word, bool) patch)
   \<and> \<not> IsType (CallPatch (Call \<lparr>dex_file' = 4096, referrer_class_def_idx' = 3,
        referrer_method_idx' = 17, literal_offset' = 128 :: 32 word,
        referrer_invoke_type' = True, target_method_idx' = 42,
        target_invoke_type' = False\<rparr>))
   \<and> AsType (CallPatch (Call \<lparr>dex_file' = 4096, referrer_class_def_idx' = 3,
        referrer_method_idx' = 17, literal_offset' = 128 :: 32 word,
        referrer_invoke_type' = True, target_method_idx' = 42,
        target_invoke_type' = False\<rparr>)) = Inl FatalUnreachable
   \<and> IsCall (CallPatch (Call \<lparr>dex_file' = 4096, referrer_class_def_idx' = 3,
        referrer_method_idx' = 17, literal_offset' = 128 :: 32 word,
        referrer_invoke_type' = True, target_method_idx' = 42,
        target_invoke_type' = False\<rparr>))
   \<and> TypePatchInformation_init NULL 3 17 9 (128 :: 32 word) = Inl CheckFailed"
proof -
  let ?u = "\<lparr>dex_file' = 4096, referrer_class_def_idx' = 3,
        referrer_method_idx' = 17, literal_offset' = 128 :: 32 word,
        target_type_idx' = 9\<rparr>"
  let ?p = "\<lparr>dex_file' = 4096, referrer_class_def_idx' = 3,
        referrer_method_idx' = 17, literal_offset' = 128 :: 32 word,
        referrer_invoke_type' = True, target_method_idx' = 42,
        target_invoke_type' = False\<rparr>"
  have t: "\<not> IsCall (TypePatch ?u :: (32 word, bool) patch)"
    and c: "\<not> IsType (CallPatch (Call ?p))"
    by simp_all
  from patch_variant_tags_exclusive
    [of "TypePatch ?u :: (32 word, bool) patch" "Call ?p" ?u 3 17 128 True 42 False 0 9] t
  have 1: "AsCall (TypePatch ?u :: (32 word, bool) patch) = Inl FatalUnreachable"
    and 2: "TypePatchInformation_init NULL 3 17 9 (128 :: 32 word) = Inl CheckFailed"
    by blast+
  from patch_variant_tags_exclusive
    [of "CallPatch (Call ?p)" "Call ?p" ?u 3 17 128 True 42 False 0 9] c
  have 3: "AsType (CallPatch (Call ?p)) = Inl FatalUnreachable"
    by blast
  show ?thesis using t c 1 2 3 by simp
qed

subsection \<open>Patch ledger\<close>

lemmas patch_lists = GetCodeToPatch_def GetMethodsToPatch_def GetClassesToPatch_def

lemma code_patches_of_Cons: "code_patches_of (c # cs) = code_patches_of [c] @ code_patches_of cs"
  by (cases c) simp_all

lemma method_patches_of_Cons:
  "method_patches_of (c # cs) = method_patches_of [c] @ method_patches_of cs"
  by (cases c) simp_all

lemma class_patches_of_Cons:
  "class_patches_of (c # cs) = class_patches_of [c] @ class_patches_of cs"
  by (cases c) simp_all

lemma one_patch_per_call:
  "length (code_patches_of [c]) + length (method_patches_of [c])
     + length (class_patches_of [c]) = 1"
  by (cases c) simp_all

lemma record_patch_lists:
  assumes "record_patch c this = Inr this'"
  shows "code_to_patch' this' = code_to_patch' this @ code_patches_of [c]"
    and "methods_to_patch' this' = methods_to_patch' this @ method_patches_of [c]"
    and "classes_to_patch' this' = classes_to_patch' this @ class_patches_of [c]"
  using assms
  by (cases c; auto simp: AddCodePatch_def AddRelativeCodePatch_def AddMethodPatch_def
      AddClassPatch_def CallPatchInformation_init_eq RelativeCallPatchInformation_init_eq
      TypePatchInformation_init_eq split: if_splits)+

lemma record_patches_lists:
  "record_patches cs this = Inr this' \<Longrightarrow>
   code_to_patch' this' = code_to_patch' this @ code_patches_of cs
   \<and> methods_to_patch' this' = methods_to_patch' this @ method_patches_of cs
   \<and> classes_to_patch' this' = classes_to_patch' this @ class_patches_of cs"
proof (induction cs arbitrary: this)
  case Nil
  then show ?case by simp
next
  case (Cons c cs)
  from Cons.prems obtain mid where
    c: "record_patch c this = Inr mid" and cs: "record_patches cs mid = Inr this'"
    by (auto split: sum.splits)
  show ?case
    using Cons.IH [OF cs] record_patch_lists [OF c]
    by (simp add: code_patches_of_Cons [of c cs] method_patches_of_Cons [of c cs]
        class_patches_of_Cons [of c cs])
qed

lemma record_patch_ok: "dex_file_of c \<noteq> NULL \<Longrightarrow> \<exists>this'. record_patch c this = Inr this'"
  by (cases c) (simp_all add: AddCodePatch_def AddRelativeCodePatch_def AddMethodPatch_def
      AddClassPatch_def CallPatchInformation_init_eq RelativeCallPatchInformation_init_eq
      TypePatchInformation_init_eq)

lemma record_patches_ok:
  "\<forall>c \<in> set cs. dex_file_of c \<noteq> NULL \<Longrightarrow> \<exists>this'. record_patches cs this = Inr this'"
proof (induction cs arbitrary: this)
  case Nil
  then show ?case by simp
next
  case (Cons c cs)
  then obtain mid where "record_patch c this = Inr mid"
    using record_patch_ok [of c this] by auto
  moreover obtain this' where "record_patches cs mid = Inr this'"
    using Cons.IH [of mid] Cons.prems by auto
  ultimately show ?case by simp
qed

text \<open>
  C5: the patch ledger is append-only and keeps insertion order. Each record operation
  that returns (\<open>AddCodePatch\<close>, \<open>AddRelativeCodePatch\<close>, \<open>AddMethodPatch\<close>,
  \<open>AddClassPatch\<close>) appends exactly one new record, built from its arguments, at the end
  of its list (\<open>code_to_patch_\<close> for the first two, \<open>methods_to_patch_\<close>,
  \<open>classes_to_patch_\<close>) and leaves the earlier entries and the other two lists as they
  were. No operation removes a record: after any sequence of record calls that returns,
  \<open>GetCodeToPatch\<close>, \<open>GetMethodsToPatch\<close> and \<open>GetClassesToPatch\<close> are the lists before
  it followed by exactly the recorded entries in the order of the calls; and a sequence
  of calls whose modules are all non-null does return.
\<close>

theorem patch_ledger_append_only:
  "(AddCodePatch d c m ri t ti l this = Inr this1 \<longrightarrow>
      GetCodeToPatch this1 = GetCodeToPatch this @
        [Call \<lparr>dex_file' = d, referrer_class_def_idx' = c, referrer_method_idx' = m,
               literal_offset' = l, referrer_invoke_type' = ri, target_method_idx' = t,
               target_invoke_type' = ti\<rparr>]
      \<and> GetMethodsToPatch this1 = GetMethodsToPatch this
      \<and> GetClassesToPatch this1 = GetClassesToPatch this)
   \<and> (AddRelativeCodePatch d c m ri t ti l r this = Inr this2 \<longrightarrow>
      GetCodeToPatch this2 = GetCodeToPatch this @
        [RelativeCall \<lparr>dex_file' = d, referrer_class_def_idx' = c, referrer_method_idx' = m,
               literal_offset' = l, referrer_invoke_type' = ri, target_method_idx' = t,
               target_invoke_type' = ti, offset' = r\<rparr>]
      \<and> GetMethodsToPatch this2 = GetMethodsToPatch this
      \<and> GetClassesToPatch this2 = GetClassesToPatch this)
   \<and> (AddMethodPatch d c m ri t ti l this = Inr this3 \<longrightarrow>
      GetMethodsToPatch this3 = GetMethodsToPatch this @
        [Call \<lparr>dex_file' = d, referrer_class_def_idx' = c, referrer_method_idx' = m,
               literal_offset' = l, referrer_invoke_type' = ri, target_method_idx' = t,
               target_invoke_type' = ti\<rparr>]
      \<and> GetCodeToPatch this3 = GetCodeToPatch this
      \<and> GetClassesToPatch this3 = GetClassesToPatch this)
   \<and> (AddClassPatch d c m tt l this = Inr this4 \<longrightarrow>
      GetClassesToPatch this4 = GetClassesToPatch this @
        [\<lparr>dex_file' = d, referrer_class_def_idx' = c, referrer_method_idx' = m,
          literal_offset' = l, target_type_idx' = tt\<rparr>]
      \<and> GetCodeToPatch this4 = GetCodeToPatch this
      \<and> GetMethodsToPatch this4 = GetMethodsToPatch this)
   \<and> (record_patches cs this = Inr this' \<longrightarrow>
      GetCodeToPatch this' = GetCodeToPatch this @ code_patches_of cs
      \<and> GetMethodsToPatch this' = GetMethodsToPatch this @ method_patches_of cs
      \<and> GetClassesToPatch this' = GetClassesToPatch this @ class_patches_of cs
      \<and> length (code_patches_of cs) + length (method_patches_of cs)
          + length (class_patches_of cs) = length cs)
   \<and> ((\<forall>call \<in> set cs. dex_file_of call \<noteq> NULL) \<longrightarrow>
        (\<exists>this'. record_patches cs this = Inr this'))"
proof (intro conjI impI)
  assume a: "AddCodePatch d c m ri t ti l this = Inr this1"
  then have "record_patch (CodePatch d c m ri t ti l) this = Inr this1" by simp
  from record_patch_lists [OF this]
  show "GetCodeToPatch this1 = GetCodeToPatch this @
        [Call \<lparr>dex_file' = d, referrer_class_def_idx' = c, referrer_method_idx' = m,
               literal_offset' = l, referrer_invoke_type' = ri, target_method_idx' = t,
               target_invoke_type' = ti\<rparr>]"
    and "GetMethodsToPatch this1 = GetMethodsToPatch this"
    and "GetClassesToPatch this1 = GetClassesToPatch this"
    by (simp_all add: patch_lists)
next
  assume a: "AddRelativeCodePatch d c m ri t ti l r this = Inr this2"
  then have "record_patch (RelativeCodePatch d c m ri t ti l r) this = Inr this2" by simp
  from record_patch_lists [OF this]
  show "GetCodeToPatch this2 = GetCodeToPatch this @
        [RelativeCall \<lparr>dex_file' = d, referrer_class_def_idx' = c, referrer_method_idx' = m,
               literal_offset' = l, referrer_invoke_type' = ri, target_method_idx' = t,
               target_invoke_type' = ti, offset' = r\<rparr>]"
    and "GetMethodsToPatch this2 = GetMethodsToPatch this"
    and "GetClassesToPatch this2 = GetClassesToPatch this"
    by (simp_all add: patch_lists)
next
  assume a: "AddMethodPatch d c m ri t ti l this = Inr this3"
  then have "record_patch (MethodPatch d c m ri t ti l) this = Inr this3" by simp
  from record_patch_lists [OF this]
  show "GetMethodsToPatch this3 = GetMethodsToPatch this @
        [Call \<lparr>dex_file' = d, referrer_class_def_idx' = c, referrer_method_idx' = m,
               literal_offset' = l, referrer_invoke_type' = ri, target_method_idx' = t,
               target_invoke_type' = ti\<rparr>]"
    and "GetCodeToPatch this3 = GetCodeToPatch this"
    and "GetClassesToPatch this3 = GetClassesToPatch this"
    by (simp_all add: patch_lists)
next
  assume a: "AddClassPatch d c m tt l this = Inr this4"
  then have "record_patch (ClassPatch d c m tt l) this = Inr this4" by simp
  from record_patch_lists [OF this]
  show "GetClassesToPatch this4 = GetClassesToPatch this @
        [\<lparr>dex_file' = d, referrer_class_def_idx' = c, referrer_method_idx' = m,
          literal_offset' = l, target_type_idx' = tt\<rparr>]"
    and "GetCodeToPatch this4 = GetCodeToPatch this"
    and "GetMethodsToPatch this4 = GetMethodsToPatch this"
    by (simp_all add: patch_lists)
next
  assume a: "record_patches cs this = Inr this'"
  from record_patches_lists [OF a]
  show "GetCodeToPatch this' = GetCodeToPatch this @ code_patches_of cs"
    and "GetMethodsToPatch this' = GetMethodsToPatch this @ method_patches_of cs"
    and "GetClassesToPatch this' = GetClassesToPatch this @ class_patches_of cs"
    by (simp_all add: patch_lists)
  show "length (code_patches_of cs) + length (method_patches_of cs)
          + length (class_patches_of cs) = length cs"
  proof (induction cs)
    case Nil
    then show ?case by simp
  next
    case (Cons call cs)
    then show ?case
      using one_patch_per_call [of call]
      by (simp add: code_patches_of_Cons [of call cs] method_patches_of_Cons [of call cs]
          class_patches_of_Cons [of call cs])
  qed
next
  assume "\<forall>call \<in> set cs. dex_file_of call \<noteq> NULL"
  then show "\<exists>this'. record_patches cs this = Inr this'"
    by (rule record_patches_ok)
qed

theorem patch_ledger_witness:
  "\<exists>this1 this2 this3 this4 this'.
     AddCodePatch 4096 3 17 True 42 False 128
       (CompilerDriver_init False None :: (32 word, bool) CompilerDriver) = Inr this1
   \<and> GetCodeToPatch this1 =
        [Call \<lparr>dex_file' = 4096, referrer_class_def_idx' = 3, referrer_method_idx' = 17,
               literal_offset' = 128, referrer_invoke_type' = True,
               target_method_idx' = 42, target_invoke_type' = False\<rparr>]
   \<and> AddRelativeCodePatch 4096 3 17 True 42 False 128 (- 8) this1 = Inr this2
   \<and> GetCodeToPatch this2 =
        [Call \<lparr>dex_file' = 4096, referrer_class_def_idx' = 3, referrer_method_idx' = 17,
               literal_offset' = 128, referrer_invoke_type' = True,
               target_method_idx' = 42, target_invoke_type' = False\<rparr>,
         RelativeCall \<lparr>dex_file' = 4096, referrer_class_def_idx' = 3,
               referrer_method_idx' = 17, literal_offset' = 128,
               referrer_invoke_type' = True, target_method_idx' = 42,
               target_invoke_type' = False, offset' = - 8\<rparr>]
   \<and> AddMethodPatch 4096 3 17 True 42 False 128 this2 = Inr this3
   \<and> GetMethodsToPatch this3 =
        [Call \<lparr>dex_file' = 4096, referrer_class_def_idx' = 3, referrer_method_idx' = 17,
               literal_offset' = 128, referrer_invoke_type' = True,
               target_method_idx' = 42, target_invoke_type' = False\<rparr>]
   \<and> AddClassPatch 4096 3 17 9 128 this3 = Inr this4
   \<and> GetClassesToPatch this4 =
        [\<lparr>dex_file' = 4096, referrer_class_def_idx' = 3, referrer_method_idx' = 17,
          literal_offset' = 128, target_type_idx' = 9\<rparr>]
   \<and> record_patches
        [ClassPatch 4096 3 17 9 128, CodePatch 4096 3 17 True 42 False 128,
         ClassPatch 4096 5 21 7 64] this4 = Inr this'
   \<and> GetCodeToPatch this' = GetCodeToPatch this4 @
        [Call \<lparr>dex_file' = 4096, referrer_class_def_idx' = 3, referrer_method_idx' = 17,
               literal_offset' = 128, referrer_invoke_type' = True,
               target_method_idx' = 42, target_invoke_type' = False\<rparr>]
   \<and> GetMethodsToPatch this' = GetMethodsToPatch this4
   \<and> GetClassesToPatch this' = GetClassesToPatch this4 @
        [\<lparr>dex_file' = 4096, referrer_class_def_idx' = 3, referrer_method_idx' = 17,
          literal_offset' = 128, target_type_idx' = 9\<rparr>,
         \<lparr>dex_file' = 4096, referrer_class_def_idx' = 5, referrer_method_idx' = 21,
          literal_offset' = 64, target_type_idx' = 7\<rparr>]"
proof -
  let ?d0 = "CompilerDriver_init False None :: (32 word, bool) CompilerDriver"
  let ?cs = "[ClassPatch 4096 3 17 9 128, CodePatch 4096 3 17 True 42 False 128,
         ClassPatch 4096 5 21 7 64] :: (32 word, bool) patch_call list"
  obtain this1 where 1: "AddCodePatch 4096 3 17 True 42 False 128 ?d0 = Inr this1"
    by (simp add: AddCodePatch_def CallPatchInformation_init_eq NULL_def)
  obtain this2 where 2: "AddRelativeCodePatch 4096 3 17 True 42 False 128 (- 8) this1 = Inr this2"
    by (simp add: AddRelativeCodePatch_def RelativeCallPatchInformation_init_eq NULL_def)
  obtain this3 where 3: "AddMethodPatch 4096 3 17 True 42 False 128 this2 = Inr this3"
    by (simp add: AddMethodPatch_def CallPatchInformation_init_eq NULL_def)
  obtain this4 where 4: "AddClassPatch 4096 3 17 9 128 this3 = Inr this4"
    by (simp add: AddClassPatch_def TypePatchInformation_init_eq NULL_def)
  have nonnull: "\<forall>call \<in> set ?cs. dex_file_of call \<noteq> NULL"
    by (simp add: NULL_def)
  have e: "GetCodeToPatch ?d0 = []" "GetMethodsToPatch ?d0 = []"
    "GetClassesToPatch ?d0 = []"
    by (simp_all add: patch_lists CompilerDriver_init_def)
  note a = patch_ledger_append_only
    [of 4096 3 17 True 42 False 128 ?d0 this1 "- 8" this2 this3 9 this4 ?cs]
  have l1: "GetCodeToPatch this1 =
        [Call \<lparr>dex_file' = 4096, referrer_class_def_idx' = 3, referrer_method_idx' = 17,
               literal_offset' = 128, referrer_invoke_type' = True,
               target_method_idx' = 42, target_invoke_type' = False\<rparr>]"
    and m1: "GetMethodsToPatch this1 = []" and c1: "GetClassesToPatch this1 = []"
    using a 1 e by simp_all
  note b = patch_ledger_append_only
    [of 4096 3 17 True 42 False 128 this1 this2 "- 8" this2 this3 9 this4 ?cs]
  have l2: "GetCodeToPatch this2 = GetCodeToPatch this1 @
         [RelativeCall \<lparr>dex_file' = 4096, referrer_class_def_idx' = 3,
               referrer_method_idx' = 17, literal_offset' = 128,
               referrer_invoke_type' = True, target_method_idx' = 42,
               target_invoke_type' = False, offset' = - 8\<rparr>]"
    and m2: "GetMethodsToPatch this2 = GetMethodsToPatch this1"
    and c2: "GetClassesToPatch this2 = GetClassesToPatch this1"
    using b 2 by simp_all
  note c = patch_ledger_append_only
    [of 4096 3 17 True 42 False 128 this2 this3 "- 8" this2 this3 9 this4 ?cs]
  have m3: "GetMethodsToPatch this3 = GetMethodsToPatch this2 @
        [Call \<lparr>dex_file' = 4096, referrer_class_def_idx' = 3, referrer_method_idx' = 17,
               literal_offset' = 128, referrer_invoke_type' = True,
               target_method_idx' = 42, target_invoke_type' = False\<rparr>]"
    and c3: "GetClassesToPatch this3 = GetClassesToPatch this2"
    using c 3 by simp_all
  note d = patch_ledger_append_only
    [of 4096 3 17 True 42 False 128 this3 this3 "- 8" this2 this3 9 this4 ?cs]
  have c4: "GetClassesToPatch this4 = GetClassesToPatch this3 @
        [\<lparr>dex_file' = 4096, referrer_class_def_idx' = 3, referrer_method_idx' = 17,
          literal_offset' = 128, target_type_idx' = 9\<rparr>]"
    using d 4 by simp
  note f = patch_ledger_append_only
    [of 4096 3 17 True 42 False 128 this4 this3 "- 8" this2 this3 9 this4 ?cs]
  obtain this' where 5: "record_patches ?cs this4 = Inr this'"
    using f nonnull by blast
  note g = patch_ledger_append_only
    [of 4096 3 17 True 42 False 128 this4 this3 "- 8" this2 this3 9 this4 ?cs this']
  have l5: "GetCodeToPatch this' = GetCodeToPatch this4 @ code_patches_of ?cs"
    and m5: "GetMethodsToPatch this' = GetMethodsToPatch this4 @ method_patches_of ?cs"
    and c5: "GetClassesToPatch this' = GetClassesToPatch this4 @ class_patches_of ?cs"
    using g 5 by simp_all
  show ?thesis
    apply (rule exI [of _ this1], rule exI [of _ this2], rule exI [of _ this3])
    apply (rule exI [of _ this4], rule exI [of _ this'])
    using 1 2 3 4 5 l1 l2 m1 m2 m3 c1 c2 c3 c4 l5 m5 c5
    apply simp
    done
qed

subsection \<open>Dedupe store\<close>

lemma find_entry_Some:
  "find_entry entries hash key = Some handle \<Longrightarrow>
   handle < length entries \<and> entries ! handle = (hash, key)"
proof (induction entries arbitrary: handle)
  case Nil
  then show ?case by simp
next
  case (Cons e entries)
  obtain hash' buffer where e: "e = (hash', buffer)" by (cases e)
  show ?case
  proof (cases "hash' = hash \<and> buffer = key")
    case True
    with Cons.prems e show ?thesis by simp
  next
    case False
    with Cons.prems e obtain h where
      "find_entry entries hash key = Some h" and "handle = Suc h"
      by auto
    with Cons.IH [of h] show ?thesis by simp
  qed
qed

lemma find_entry_append_Some:
  "find_entry entries hash key = Some handle \<Longrightarrow>
   find_entry (entries @ rest) hash key = Some handle"
  by (induction entries arbitrary: handle) auto

lemma find_entry_append_None:
  "find_entry entries hash key = None \<Longrightarrow>
   find_entry (entries @ [(hash, key)]) hash key = Some (length entries)"
  by (induction entries) (auto split: if_splits)

text \<open>\<open>DedupeSet::Add\<close> always returns, since the hash does.\<close>

lemma DedupeSet_Add_total: "\<exists>handle entries'. DedupeSet_Add key entries = Inr (handle, entries')"
proof -
  obtain hash :: "'a word" where "DedupeHashFunc key = Inr hash"
    using DedupeHashFunc_total by blast
  then show ?thesis
    by (cases "find_entry entries hash key") (simp_all add: DedupeSet_Add_def)
qed

lemma DedupeSet_Add_canonical:
  assumes "DedupeSet_Add key entries = Inr (handle, entries')"
  shows "\<exists>hash. DedupeHashFunc key = Inr hash \<and> find_entry entries' hash key = Some handle"
proof -
  obtain hash :: "'a word" where h: "DedupeHashFunc key = Inr hash"
    using DedupeHashFunc_total by blast
  show ?thesis
  proof (cases "find_entry entries hash key")
    case None
    with assms h have "handle = length entries" "entries' = entries @ [(hash, key)]"
      by (simp_all add: DedupeSet_Add_def)
    with None h show ?thesis by (simp add: find_entry_append_None)
  next
    case (Some i)
    with assms h have "handle = i" "entries' = entries"
      by (simp_all add: DedupeSet_Add_def)
    with Some h show ?thesis by simp
  qed
qed

lemma DedupeSet_Add_again:
  assumes "DedupeHashFunc key = Inr hash" "find_entry entries hash key = Some handle"
  shows "DedupeSet_Add key entries = Inr (handle, entries)"
  using assms by (simp add: DedupeSet_Add_def)

lemma DedupeSet_Add_keeps:
  assumes "find_entry entries hash key = Some handle"
    and "DedupeSet_Add key' entries = Inr (handle', entries')"
  shows "find_entry entries' hash key = Some handle"
proof -
  obtain hash' :: "'a word" where h: "DedupeHashFunc key' = Inr hash'"
    using DedupeHashFunc_total by blast
  show ?thesis
  proof (cases "find_entry entries hash' key'")
    case None
    with assms(2) h have "entries' = entries @ [(hash', key')]"
      by (simp add: DedupeSet_Add_def)
    with assms(1) show ?thesis by (simp add: find_entry_append_Some)
  next
    case (Some i)
    with assms(2) h have "entries' = entries" by (simp add: DedupeSet_Add_def)
    with assms(1) show ?thesis by simp
  qed
qed

lemma buffer_at_canonical:
  "find_entry entries hash key = Some handle \<Longrightarrow> buffer_at entries handle = Some key"
  by (drule find_entry_Some) (simp add: buffer_at_def)

lemmas Deduplicate_defs =
  DeduplicateCode_def DeduplicateMappingTable_def DeduplicateVMapTable_def
  DeduplicateGCMap_def

lemma deduplicate_total: "\<exists>handle this'. deduplicate c this = Inr (handle, this')"
proof (cases c)
  case (Code key)
  then show ?thesis
    using DedupeSet_Add_total [of key "dedupe_code' this"]
    by (auto simp: DeduplicateCode_def)
next
  case (MappingTable key)
  then show ?thesis
    using DedupeSet_Add_total [of key "dedupe_mapping_table' this"]
    by (auto simp: DeduplicateMappingTable_def)
next
  case (VMapTable key)
  then show ?thesis
    using DedupeSet_Add_total [of key "dedupe_vmap_table' this"]
    by (auto simp: DeduplicateVMapTable_def)
next
  case (GCMap key)
  then show ?thesis
    using DedupeSet_Add_total [of key "dedupe_gc_map' this"]
    by (auto simp: DeduplicateGCMap_def)
qed

lemma deduplicate_all_total: "\<exists>this'. deduplicate_all cs this = Inr this'"
proof (induction cs arbitrary: this)
  case Nil
  then show ?case by simp
next
  case (Cons c cs)
  obtain handle mid where "deduplicate c this = Inr (handle, mid)"
    using deduplicate_total by blast
  then show ?case using Cons.IH [of mid] by simp
qed

text \<open>Every canonical buffer of every store stays canonical under a dedupe call.\<close>

lemma deduplicate_keeps:
  assumes "deduplicate c this = Inr (handle', this')"
  shows "find_entry (dedupe_code' this) hash key = Some handle \<Longrightarrow>
           find_entry (dedupe_code' this') hash key = Some handle"
    and "find_entry (dedupe_mapping_table' this) hash key = Some handle \<Longrightarrow>
           find_entry (dedupe_mapping_table' this') hash key = Some handle"
    and "find_entry (dedupe_vmap_table' this) hash key = Some handle \<Longrightarrow>
           find_entry (dedupe_vmap_table' this') hash key = Some handle"
    and "find_entry (dedupe_gc_map' this) hash key = Some handle \<Longrightarrow>
           find_entry (dedupe_gc_map' this') hash key = Some handle"
  using assms
  by (cases c; auto simp: Deduplicate_defs split: sum.splits dest: DedupeSet_Add_keeps)+

lemma deduplicate_all_keeps:
  assumes "deduplicate_all cs this = Inr this'"
  shows "(find_entry (dedupe_code' this) hash key = Some handle \<longrightarrow>
           find_entry (dedupe_code' this') hash key = Some handle)
    \<and> (find_entry (dedupe_mapping_table' this) hash key = Some handle \<longrightarrow>
           find_entry (dedupe_mapping_table' this') hash key = Some handle)
    \<and> (find_entry (dedupe_vmap_table' this) hash key = Some handle \<longrightarrow>
           find_entry (dedupe_vmap_table' this') hash key = Some handle)
    \<and> (find_entry (dedupe_gc_map' this) hash key = Some handle \<longrightarrow>
           find_entry (dedupe_gc_map' this') hash key = Some handle)"
  using assms
proof (induction cs arbitrary: this)
  case Nil
  then show ?case by simp
next
  case (Cons c cs)
  from Cons.prems obtain handle' mid where
    c: "deduplicate c this = Inr (handle', mid)" and cs: "deduplicate_all cs mid = Inr this'"
    by (auto split: sum.splits)
  show ?case
    using Cons.IH [OF cs] deduplicate_keeps [OF c, of hash key handle] by blast
qed

lemma DeduplicateCode_canonical:
  fixes this :: "('a::len word, 'i) CompilerDriver"
  shows "\<exists>handle this1.
     DeduplicateCode b this = Inr (handle, this1)
     \<and> buffer_at (dedupe_code' this1) handle = Some b
     \<and> DeduplicateCode b this1 = Inr (handle, this1)
     \<and> (\<forall>cs. \<exists>this2. deduplicate_all cs this1 = Inr this2
            \<and> DeduplicateCode b this2 = Inr (handle, this2)
            \<and> buffer_at (dedupe_code' this2) handle = Some b)"
proof -
  obtain handle entries where add: "DedupeSet_Add b (dedupe_code' this) = Inr (handle, entries)"
    using DedupeSet_Add_total by blast
  let ?this1 = "this\<lparr>dedupe_code' := entries\<rparr>"
  have first: "DeduplicateCode b this = Inr (handle, ?this1)"
    using add by (simp add: DeduplicateCode_def)
  obtain hash where h: "DedupeHashFunc b = Inr hash"
    and f: "find_entry entries hash b = Some handle"
    using DedupeSet_Add_canonical [OF add] by blast
  have again: "DeduplicateCode b d = Inr (handle, d) \<and> buffer_at (dedupe_code' d) handle = Some b"
    if "find_entry (dedupe_code' d) hash b = Some handle"
    for d :: "('a word, 'i) CompilerDriver"
    using h that by (simp add: DeduplicateCode_def DedupeSet_Add_again buffer_at_canonical)
  have f1: "find_entry (dedupe_code' ?this1) hash b = Some handle"
    using f by simp
  have later: "\<exists>this2. deduplicate_all cs ?this1 = Inr this2
      \<and> DeduplicateCode b this2 = Inr (handle, this2)
      \<and> buffer_at (dedupe_code' this2) handle = Some b" for cs
  proof -
    obtain this2 where r: "deduplicate_all cs ?this1 = Inr this2"
      using deduplicate_all_total by blast
    from deduplicate_all_keeps [OF r, of hash b handle] f1
    have "find_entry (dedupe_code' this2) hash b = Some handle" by blast
    with again [of this2] r show ?thesis by blast
  qed
  from first again [OF f1] later show ?thesis by blast
qed

lemma DeduplicateMappingTable_canonical:
  fixes this :: "('a::len word, 'i) CompilerDriver"
  shows "\<exists>handle this1.
     DeduplicateMappingTable b this = Inr (handle, this1)
     \<and> buffer_at (dedupe_mapping_table' this1) handle = Some b
     \<and> DeduplicateMappingTable b this1 = Inr (handle, this1)
     \<and> (\<forall>cs. \<exists>this2. deduplicate_all cs this1 = Inr this2
            \<and> DeduplicateMappingTable b this2 = Inr (handle, this2)
            \<and> buffer_at (dedupe_mapping_table' this2) handle = Some b)"
proof -
  obtain handle entries where add: "DedupeSet_Add b (dedupe_mapping_table' this) = Inr (handle, entries)"
    using DedupeSet_Add_total by blast
  let ?this1 = "this\<lparr>dedupe_mapping_table' := entries\<rparr>"
  have first: "DeduplicateMappingTable b this = Inr (handle, ?this1)"
    using add by (simp add: DeduplicateMappingTable_def)
  obtain hash where h: "DedupeHashFunc b = Inr hash"
    and f: "find_entry entries hash b = Some handle"
    using DedupeSet_Add_canonical [OF add] by blast
  have again: "DeduplicateMappingTable b d = Inr (handle, d) \<and> buffer_at (dedupe_mapping_table' d) handle = Some b"
    if "find_entry (dedupe_mapping_table' d) hash b = Some handle"
    for d :: "('a word, 'i) CompilerDriver"
    using h that by (simp add: DeduplicateMappingTable_def DedupeSet_Add_again buffer_at_canonical)
  have f1: "find_entry (dedupe_mapping_table' ?this1) hash b = Some handle"
    using f by simp
  have later: "\<exists>this2. deduplicate_all cs ?this1 = Inr this2
      \<and> DeduplicateMappingTable b this2 = Inr (handle, this2)
      \<and> buffer_at (dedupe_mapping_table' this2) handle = Some b" for cs
  proof -
    obtain this2 where r: "deduplicate_all cs ?this1 = Inr this2"
      using deduplicate_all_total by blast
    from deduplicate_all_keeps [OF r, of hash b handle] f1
    have "find_entry (dedupe_mapping_table' this2) hash b = Some handle" by blast
    with again [of this2] r show ?thesis by blast
  qed
  from first again [OF f1] later show ?thesis by blast
qed

lemma DeduplicateVMapTable_canonical:
  fixes this :: "('a::len word, 'i) CompilerDriver"
  shows "\<exists>handle this1.
     DeduplicateVMapTable b this = Inr (handle, this1)
     \<and> buffer_at (dedupe_vmap_table' this1) handle = Some b
     \<and> DeduplicateVMapTable b this1 = Inr (handle, this1)
     \<and> (\<forall>cs. \<exists>this2. deduplicate_all cs this1 = Inr this2
            \<and> DeduplicateVMapTable b this2 = Inr (handle, this2)
            \<and> buffer_at (dedupe_vmap_table' this2) handle = Some b)"
proof -
  obtain handle entries where add: "DedupeSet_Add b (dedupe_vmap_table' this) = Inr (handle, entries)"
    using DedupeSet_Add_total by blast
  let ?this1 = "this\<lparr>dedupe_vmap_table' := entries\<rparr>"
  have first: "DeduplicateVMapTable b this = Inr (handle, ?this1)"
    using add by (simp add: DeduplicateVMapTable_def)
  obtain hash where h: "DedupeHashFunc b = Inr hash"
    and f: "find_entry entries hash b = Some handle"
    using DedupeSet_Add_canonical [OF add] by blast
  have again: "DeduplicateVMapTable b d = Inr (handle, d) \<and> buffer_at (dedupe_vmap_table' d) handle = Some b"
    if "find_entry (dedupe_vmap_table' d) hash b = Some handle"
    for d :: "('a word, 'i) CompilerDriver"
    using h that by (simp add: DeduplicateVMapTable_def DedupeSet_Add_again buffer_at_canonical)
  have f1: "find_entry (dedupe_vmap_table' ?this1) hash b = Some handle"
    using f by simp
  have later: "\<exists>this2. deduplicate_all cs ?this1 = Inr this2
      \<and> DeduplicateVMapTable b this2 = Inr (handle, this2)
      \<and> buffer_at (dedupe_vmap_table' this2) handle = Some b" for cs
  proof -
    obtain this2 where r: "deduplicate_all cs ?this1 = Inr this2"
      using deduplicate_all_total by blast
    from deduplicate_all_keeps [OF r, of hash b handle] f1
    have "find_entry (dedupe_vmap_table' this2) hash b = Some handle" by blast
    with again [of this2] r show ?thesis by blast
  qed
  from first again [OF f1] later show ?thesis by blast
qed

lemma DeduplicateGCMap_canonical:
  fixes this :: "('a::len word, 'i) CompilerDriver"
  shows "\<exists>handle this1.
     DeduplicateGCMap b this = Inr (handle, this1)
     \<and> buffer_at (dedupe_gc_map' this1) handle = Some b
     \<and> DeduplicateGCMap b this1 = Inr (handle, this1)
     \<and> (\<forall>cs. \<exists>this2. deduplicate_all cs this1 = Inr this2
            \<and> DeduplicateGCMap b this2 = Inr (handle, this2)
            \<and> buffer_at (dedupe_gc_map' this2) handle = Some b)"
proof -
  obtain handle entries where add: "DedupeSet_Add b (dedupe_gc_map' this) = Inr (handle, entries)"
    using DedupeSet_Add_total by blast
  let ?this1 = "this\<lparr>dedupe_gc_map' := entries\<rparr>"
  have first: "DeduplicateGCMap b this = Inr (handle, ?this1)"
    using add by (simp add: DeduplicateGCMap_def)
  obtain hash where h: "DedupeHashFunc b = Inr hash"
    and f: "find_entry entries hash b = Some handle"
    using DedupeSet_Add_canonical [OF add] by blast
  have again: "DeduplicateGCMap b d = Inr (handle, d) \<and> buffer_at (dedupe_gc_map' d) handle = Some b"
    if "find_entry (dedupe_gc_map' d) hash b = Some handle"
    for d :: "('a word, 'i) CompilerDriver"
    using h that by (simp add: DeduplicateGCMap_def DedupeSet_Add_again buffer_at_canonical)
  have f1: "find_entry (dedupe_gc_map' ?this1) hash b = Some handle"
    using f by simp
  have later: "\<exists>this2. deduplicate_all cs ?this1 = Inr this2
      \<and> DeduplicateGCMap b this2 = Inr (handle, this2)
      \<and> buffer_at (dedupe_gc_map' this2) handle = Some b" for cs
  proof -
    obtain this2 where r: "deduplicate_all cs ?this1 = Inr this2"
      using deduplicate_all_total by blast
    from deduplicate_all_keeps [OF r, of hash b handle] f1
    have "find_entry (dedupe_gc_map' this2) hash b = Some handle" by blast
    with again [of this2] r show ?thesis by blast
  qed
  from first again [OF f1] later show ?thesis by blast
qed

text \<open>
  C1: dedupe interning is idempotent and canonicalizing. For every byte sequence \<open>b\<close> and
  every driver, \<open>DeduplicateCode(b)\<close> returns a handle to a buffer of its store whose
  content is \<open>b\<close>; a second call with the same content returns the same handle and leaves
  the driver as it is (no new buffer is allocated); and after any further sequence of
  dedupe calls (of any of the four kinds, all of which return) a call with content \<open>b\<close>
  still returns that same handle, to the same content, and allocates nothing. Likewise
  for \<open>DeduplicateMappingTable\<close>, \<open>DeduplicateVMapTable\<close> and \<open>DeduplicateGCMap\<close>, each
  on its own store.
\<close>

theorem dedupe_interning_canonical:
  "(\<exists>handle this1.
      DeduplicateCode b this = Inr (handle, this1)
      \<and> buffer_at (dedupe_code' this1) handle = Some b
      \<and> DeduplicateCode b this1 = Inr (handle, this1)
      \<and> (\<forall>cs. \<exists>this2. deduplicate_all cs this1 = Inr this2
             \<and> DeduplicateCode b this2 = Inr (handle, this2)
             \<and> buffer_at (dedupe_code' this2) handle = Some b))
   \<and> (\<exists>handle this1.
      DeduplicateMappingTable b this = Inr (handle, this1)
      \<and> buffer_at (dedupe_mapping_table' this1) handle = Some b
      \<and> DeduplicateMappingTable b this1 = Inr (handle, this1)
      \<and> (\<forall>cs. \<exists>this2. deduplicate_all cs this1 = Inr this2
             \<and> DeduplicateMappingTable b this2 = Inr (handle, this2)
             \<and> buffer_at (dedupe_mapping_table' this2) handle = Some b))
   \<and> (\<exists>handle this1.
      DeduplicateVMapTable b this = Inr (handle, this1)
      \<and> buffer_at (dedupe_vmap_table' this1) handle = Some b
      \<and> DeduplicateVMapTable b this1 = Inr (handle, this1)
      \<and> (\<forall>cs. \<exists>this2. deduplicate_all cs this1 = Inr this2
             \<and> DeduplicateVMapTable b this2 = Inr (handle, this2)
             \<and> buffer_at (dedupe_vmap_table' this2) handle = Some b))
   \<and> (\<exists>handle this1.
      DeduplicateGCMap b this = Inr (handle, this1)
      \<and> buffer_at (dedupe_gc_map' this1) handle = Some b
      \<and> DeduplicateGCMap b this1 = Inr (handle, this1)
      \<and> (\<forall>cs. \<exists>this2. deduplicate_all cs this1 = Inr this2
             \<and> DeduplicateGCMap b this2 = Inr (handle, this2)
             \<and> buffer_at (dedupe_gc_map' this2) handle = Some b))"
  using DeduplicateCode_canonical [of b this] DeduplicateMappingTable_canonical [of b this]
    DeduplicateVMapTable_canonical [of b this] DeduplicateGCMap_canonical [of b this]
  by (intro conjI)

theorem dedupe_interning_witness:
  "\<exists>this1 this2.
     DeduplicateCode [1, 2, 3]
       (CompilerDriver_init False None :: (32 word, bool) CompilerDriver) = Inr (0, this1)
   \<and> buffer_at (dedupe_code' this1) 0 = Some [1, 2, 3]
   \<and> DeduplicateCode [1, 2, 3] this1 = Inr (0, this1)
   \<and> deduplicate_all [Code [4], GCMap [1, 2, 3], Code [1, 2, 3]] this1 = Inr this2
   \<and> DeduplicateCode [1, 2, 3] this2 = Inr (0, this2)
   \<and> buffer_at (dedupe_code' this2) 0 = Some [1, 2, 3]"
proof -
  let ?d0 = "CompilerDriver_init False None :: (32 word, bool) CompilerDriver"
  let ?cs = "[Code [4], GCMap [1, 2, 3], Code [1, 2, 3]]"
  from dedupe_interning_canonical [of "[1, 2, 3]" ?d0]
  obtain handle this1 where
    1: "DeduplicateCode [1, 2, 3] ?d0 = Inr (handle, this1)"
    and 2: "buffer_at (dedupe_code' this1) handle = Some [1, 2, 3]"
    and 3: "DeduplicateCode [1, 2, 3] this1 = Inr (handle, this1)"
    and 4: "\<forall>cs. \<exists>this2. deduplicate_all cs this1 = Inr this2
             \<and> DeduplicateCode [1, 2, 3] this2 = Inr (handle, this2)
             \<and> buffer_at (dedupe_code' this2) handle = Some [1, 2, 3]"
    by blast
  have "(DedupeHashFunc [1, 2, 3] :: error + 32 word) = Inr 2194960030"
    by (simp add: DedupeHashFunc_small_closed hash_byte_def final_mix_def)
  then have "\<exists>d. DeduplicateCode [1, 2, 3] ?d0 = Inr (0, d)"
    by (simp add: DeduplicateCode_def DedupeSet_Add_def CompilerDriver_init_def)
  with 1 have handle: "handle = 0" by auto
  from 4 obtain this2 where
    "deduplicate_all ?cs this1 = Inr this2"
    "DeduplicateCode [1, 2, 3] this2 = Inr (handle, this2)"
    "buffer_at (dedupe_code' this2) handle = Some [1, 2, 3]"
    by blast
  with 1 2 3 handle show ?thesis by blast
qed

subsection \<open>Artifact tables\<close>

lemma put_class_eq:
  "put_class ref artifact this =
     (case compiled_classes' this ref of
        Some _ \<Rightarrow> Inl DuplicateInsert
      | None \<Rightarrow> Inr (this\<lparr>compiled_classes' := (compiled_classes' this)(ref \<mapsto> artifact)\<rparr>))"
  by (simp add: put_class_def table_put_def split: option.splits)

lemma put_method_eq:
  "put_method ref artifact this =
     (case compiled_methods' this ref of
        Some _ \<Rightarrow> Inl DuplicateInsert
      | None \<Rightarrow> Inr (this\<lparr>compiled_methods' := (compiled_methods' this)(ref \<mapsto> artifact)\<rparr>))"
  by (simp add: put_method_def table_put_def split: option.splits)

lemma put_artifacts_error: "put_artifacts cs this = Inl e \<Longrightarrow> e = DuplicateInsert"
proof (induction cs arbitrary: this)
  case Nil
  then show ?case by simp
next
  case (Cons c cs)
  then show ?case
    by (cases c) (auto simp: put_class_eq put_method_eq split: option.splits)
qed

lemma put_artifacts_Inr:
  "put_artifacts cs this = Inr this' \<Longrightarrow>
     distinct (map fst (class_puts cs)) \<and> distinct (map fst (method_puts cs))
     \<and> (\<forall>r \<in> fst ` set (class_puts cs). compiled_classes' this r = None)
     \<and> (\<forall>r \<in> fst ` set (method_puts cs). compiled_methods' this r = None)
     \<and> (\<forall>r. compiled_classes' this' r =
            (case map_of (class_puts cs) r of
               Some a \<Rightarrow> Some a | None \<Rightarrow> compiled_classes' this r))
     \<and> (\<forall>r. compiled_methods' this' r =
            (case map_of (method_puts cs) r of
               Some a \<Rightarrow> Some a | None \<Rightarrow> compiled_methods' this r))"
proof (induction cs arbitrary: this)
  case Nil
  then show ?case by simp
next
  case (Cons c cs)
  show ?case
  proof (cases c)
    case (PutClass ref artifact)
    let ?mid = "this\<lparr>compiled_classes' := (compiled_classes' this)(ref \<mapsto> artifact)\<rparr>"
    from Cons.prems PutClass have fresh: "compiled_classes' this ref = None"
      and rest: "put_artifacts cs ?mid = Inr this'"
      by (auto simp: put_class_eq split: option.splits)
    note ih = Cons.IH [OF rest]
    from ih have "\<forall>r \<in> fst ` set (class_puts cs). r \<noteq> ref \<and> compiled_classes' this r = None"
      by (auto split: if_splits)
    moreover from ih have "\<forall>r \<in> fst ` set (method_puts cs). compiled_methods' this r = None"
      by simp
    moreover from ih have "\<forall>r. compiled_classes' this' r =
        (case map_of ((ref, artifact) # class_puts cs) r of
           Some a \<Rightarrow> Some a | None \<Rightarrow> compiled_classes' this r)"
      using calculation(1) by (auto simp: image_iff split: option.splits dest: map_of_SomeD)
    moreover from ih have "\<forall>r. compiled_methods' this' r =
        (case map_of (method_puts cs) r of
           Some a \<Rightarrow> Some a | None \<Rightarrow> compiled_methods' this r)"
      by (simp cong: option.case_cong)
    moreover from ih have "distinct (map fst (class_puts cs))"
      and "distinct (map fst (method_puts cs))" by simp_all
    ultimately show ?thesis
      using PutClass fresh by (auto simp: image_iff)
  next
    case (PutMethod ref artifact)
    let ?mid = "this\<lparr>compiled_methods' := (compiled_methods' this)(ref \<mapsto> artifact)\<rparr>"
    from Cons.prems PutMethod have fresh: "compiled_methods' this ref = None"
      and rest: "put_artifacts cs ?mid = Inr this'"
      by (auto simp: put_method_eq split: option.splits)
    note ih = Cons.IH [OF rest]
    from ih have "\<forall>r \<in> fst ` set (method_puts cs). r \<noteq> ref \<and> compiled_methods' this r = None"
      by (auto split: if_splits)
    moreover from ih have "\<forall>r \<in> fst ` set (class_puts cs). compiled_classes' this r = None"
      by simp
    moreover from ih have "\<forall>r. compiled_methods' this' r =
        (case map_of ((ref, artifact) # method_puts cs) r of
           Some a \<Rightarrow> Some a | None \<Rightarrow> compiled_methods' this r)"
      using calculation(1) by (auto simp: image_iff split: option.splits dest: map_of_SomeD)
    moreover from ih have "\<forall>r. compiled_classes' this' r =
        (case map_of (class_puts cs) r of
           Some a \<Rightarrow> Some a | None \<Rightarrow> compiled_classes' this r)"
      by (simp cong: option.case_cong)
    moreover from ih have "distinct (map fst (class_puts cs))"
      and "distinct (map fst (method_puts cs))" by simp_all
    ultimately show ?thesis
      using PutMethod fresh by (auto simp: image_iff)
  qed
qed

lemma put_artifacts_ok:
  "distinct (map fst (class_puts cs)) \<Longrightarrow> distinct (map fst (method_puts cs)) \<Longrightarrow>
   \<forall>r \<in> fst ` set (class_puts cs). compiled_classes' this r = None \<Longrightarrow>
   \<forall>r \<in> fst ` set (method_puts cs). compiled_methods' this r = None \<Longrightarrow>
   \<exists>this'. put_artifacts cs this = Inr this'"
proof (induction cs arbitrary: this)
  case Nil
  then show ?case by simp
next
  case (Cons c cs)
  show ?case
  proof (cases c)
    case (PutClass ref artifact)
    let ?mid = "this\<lparr>compiled_classes' := (compiled_classes' this)(ref \<mapsto> artifact)\<rparr>"
    have "\<exists>this'. put_artifacts cs ?mid = Inr this'"
      using Cons.prems PutClass by (intro Cons.IH) auto
    moreover have "compiled_classes' this ref = None"
      using Cons.prems PutClass by simp
    ultimately show ?thesis using PutClass by (simp add: put_class_eq)
  next
    case (PutMethod ref artifact)
    let ?mid = "this\<lparr>compiled_methods' := (compiled_methods' this)(ref \<mapsto> artifact)\<rparr>"
    have "\<exists>this'. put_artifacts cs ?mid = Inr this'"
      using Cons.prems PutMethod by (intro Cons.IH) auto
    moreover have "compiled_methods' this ref = None"
      using Cons.prems PutMethod by simp
    ultimately show ?thesis using PutMethod by (simp add: put_method_eq)
  qed
qed

lemmas artifact_getters = GetCompiledClass_def GetCompiledMethod_def

text \<open>
  C2: artifact insertion is at-most-once per reference. A second insertion for a class
  or method reference that already has an artifact is rejected with the fatal error and
  overwrites nothing; an insertion for a reference without one stores the artifact,
  \<open>GetCompiledClass\<close>/\<open>GetCompiledMethod\<close> then return it, and no other reference
  changes. A new driver has no artifact. A run of insertions on a new driver returns
  exactly when no class reference and no method reference is inserted twice, and aborts
  with the fatal error otherwise; when it returns, \<open>GetCompiledClass(ref)\<close> and
  \<open>GetCompiledMethod(ref)\<close> are the one artifact the run stored for \<open>ref\<close>, or nothing if
  it stored none.
\<close>

theorem artifact_insertion_at_most_once:
  fixes this final :: "('s, 'i) CompilerDriver"
  shows
  "(GetCompiledClass cref this = Some old \<longrightarrow>
      put_class cref artifact this = Inl DuplicateInsert)
   \<and> (GetCompiledClass cref this = None \<longrightarrow>
      (\<exists>this'. put_class cref artifact this = Inr this'
         \<and> GetCompiledClass cref this' = Some artifact
         \<and> (\<forall>r. r \<noteq> cref \<longrightarrow> GetCompiledClass r this' = GetCompiledClass r this)
         \<and> (\<forall>r. GetCompiledMethod r this' = GetCompiledMethod r this)))
   \<and> (GetCompiledMethod mref this = Some old \<longrightarrow>
      put_method mref artifact this = Inl DuplicateInsert)
   \<and> (GetCompiledMethod mref this = None \<longrightarrow>
      (\<exists>this'. put_method mref artifact this = Inr this'
         \<and> GetCompiledMethod mref this' = Some artifact
         \<and> (\<forall>r. r \<noteq> mref \<longrightarrow> GetCompiledMethod r this' = GetCompiledMethod r this)
         \<and> (\<forall>r. GetCompiledClass r this' = GetCompiledClass r this)))
   \<and> GetCompiledClass cref
        (CompilerDriver_init is_image image_classes :: ('s, 'i) CompilerDriver) = None
   \<and> GetCompiledMethod mref
        (CompilerDriver_init is_image image_classes :: ('s, 'i) CompilerDriver) = None
   \<and> (put_artifacts cs
        (CompilerDriver_init is_image image_classes :: ('s, 'i) CompilerDriver) = Inr final \<longrightarrow>
        distinct (map fst (class_puts cs)) \<and> distinct (map fst (method_puts cs))
        \<and> (\<forall>r. GetCompiledClass r final = map_of (class_puts cs) r)
        \<and> (\<forall>r. GetCompiledMethod r final = map_of (method_puts cs) r))
   \<and> (distinct (map fst (class_puts cs)) \<and> distinct (map fst (method_puts cs)) \<longrightarrow>
        (\<exists>final'. put_artifacts cs
           (CompilerDriver_init is_image image_classes :: ('s, 'i) CompilerDriver) = Inr final'))
   \<and> (\<not> (distinct (map fst (class_puts cs)) \<and> distinct (map fst (method_puts cs))) \<longrightarrow>
        put_artifacts cs
          (CompilerDriver_init is_image image_classes :: ('s, 'i) CompilerDriver)
          = Inl DuplicateInsert)"
proof -
  let ?new = "CompilerDriver_init is_image image_classes :: ('s, 'i) CompilerDriver"
  have empty: "compiled_classes' ?new r = None" "compiled_methods' ?new r' = None" for r r'
    by (simp_all add: CompilerDriver_init_def)
  have a: "GetCompiledClass cref this = Some old \<longrightarrow>
      put_class cref artifact this = Inl DuplicateInsert"
    by (simp add: artifact_getters put_class_eq)
  have b: "GetCompiledClass cref this = None \<longrightarrow>
      (\<exists>this'. put_class cref artifact this = Inr this'
         \<and> GetCompiledClass cref this' = Some artifact
         \<and> (\<forall>r. r \<noteq> cref \<longrightarrow> GetCompiledClass r this' = GetCompiledClass r this)
         \<and> (\<forall>r. GetCompiledMethod r this' = GetCompiledMethod r this))"
    by (simp add: artifact_getters put_class_eq)
  have c: "GetCompiledMethod mref this = Some old \<longrightarrow>
      put_method mref artifact this = Inl DuplicateInsert"
    by (simp add: artifact_getters put_method_eq)
  have d: "GetCompiledMethod mref this = None \<longrightarrow>
      (\<exists>this'. put_method mref artifact this = Inr this'
         \<and> GetCompiledMethod mref this' = Some artifact
         \<and> (\<forall>r. r \<noteq> mref \<longrightarrow> GetCompiledMethod r this' = GetCompiledMethod r this)
         \<and> (\<forall>r. GetCompiledClass r this' = GetCompiledClass r this))"
    by (simp add: artifact_getters put_method_eq)
  have e: "GetCompiledClass cref ?new = None" "GetCompiledMethod mref ?new = None"
    by (simp_all add: artifact_getters empty)
  have f: "put_artifacts cs ?new = Inr final \<longrightarrow>
        distinct (map fst (class_puts cs)) \<and> distinct (map fst (method_puts cs))
        \<and> (\<forall>r. GetCompiledClass r final = map_of (class_puts cs) r)
        \<and> (\<forall>r. GetCompiledMethod r final = map_of (method_puts cs) r)"
  proof
    assume "put_artifacts cs ?new = Inr final"
    from put_artifacts_Inr [OF this]
    show "distinct (map fst (class_puts cs)) \<and> distinct (map fst (method_puts cs))
        \<and> (\<forall>r. GetCompiledClass r final = map_of (class_puts cs) r)
        \<and> (\<forall>r. GetCompiledMethod r final = map_of (method_puts cs) r)"
      by (simp add: artifact_getters empty split: option.splits)
  qed
  have g: "distinct (map fst (class_puts cs)) \<and> distinct (map fst (method_puts cs)) \<longrightarrow>
        (\<exists>final'. put_artifacts cs ?new = Inr final')"
    by (auto intro!: put_artifacts_ok simp: empty)
  have h: "\<not> (distinct (map fst (class_puts cs)) \<and> distinct (map fst (method_puts cs))) \<longrightarrow>
        put_artifacts cs ?new = Inl DuplicateInsert"
  proof
    assume n: "\<not> (distinct (map fst (class_puts cs)) \<and> distinct (map fst (method_puts cs)))"
    show "put_artifacts cs ?new = Inl DuplicateInsert"
    proof (cases "put_artifacts cs ?new")
      case (Inl err)
      then show ?thesis using put_artifacts_error [OF Inl] by simp
    next
      case (Inr final')
      from put_artifacts_Inr [OF Inr] n show ?thesis by blast
    qed
  qed
  from a b c d e f g h show ?thesis by (intro conjI)
qed

theorem artifact_insertion_witness:
  "\<exists>final.
     put_artifacts [PutClass (4096, 3) 100, PutMethod (4096, 17) 200, PutMethod (4096, 18) 300]
       (CompilerDriver_init False None :: (32 word, bool) CompilerDriver) = Inr final
   \<and> GetCompiledClass (4096, 3) final = Some 100
   \<and> GetCompiledMethod (4096, 17) final = Some 200
   \<and> GetCompiledMethod (4096, 18) final = Some 300
   \<and> GetCompiledMethod (4096, 19) final = None
   \<and> put_method (4096, 17) 201 final = Inl DuplicateInsert
   \<and> (\<exists>final'. put_method (4096, 19) 400 final = Inr final'
         \<and> GetCompiledMethod (4096, 19) final' = Some 400
         \<and> GetCompiledMethod (4096, 17) final' = Some 200)
   \<and> put_artifacts [PutMethod (4096, 17) 200, PutClass (4096, 3) 100, PutMethod (4096, 17) 201]
       (CompilerDriver_init False None :: (32 word, bool) CompilerDriver)
       = Inl DuplicateInsert"
proof -
  let ?new = "CompilerDriver_init False None :: (32 word, bool) CompilerDriver"
  let ?cs = "[PutClass (4096, 3) 100, PutMethod (4096, 17) 200, PutMethod (4096, 18) 300]"
  let ?bad = "[PutMethod (4096, 17) 200, PutClass (4096, 3) 100, PutMethod (4096, 17) 201]"
  note run_ok = artifact_insertion_at_most_once
    [where cs = ?cs and is_image = False and image_classes = None
       and 's = "32 word" and 'i = bool,
     THEN conjunct2, THEN conjunct2, THEN conjunct2, THEN conjunct2, THEN conjunct2,
     THEN conjunct2, THEN conjunct2, THEN conjunct1, rule_format]
  have ok: "distinct (map fst (class_puts ?cs)) \<and> distinct (map fst (method_puts ?cs))"
    by simp
  from run_ok [OF ok] obtain final where run: "put_artifacts ?cs ?new = Inr final" ..
  note run_gets = artifact_insertion_at_most_once
    [where cs = ?cs and is_image = False and image_classes = None and final = final,
     THEN conjunct2, THEN conjunct2, THEN conjunct2, THEN conjunct2, THEN conjunct2,
     THEN conjunct2, THEN conjunct1, rule_format, OF run]
  have g1: "GetCompiledClass (4096, 3) final = Some 100"
    and g2: "GetCompiledMethod (4096, 17) final = Some 200"
    and g3: "GetCompiledMethod (4096, 18) final = Some 300"
    and g4: "GetCompiledMethod (4096, 19) final = None"
    by (simp_all add: run_gets)
  note second = artifact_insertion_at_most_once
    [where this = final and mref = "(4096, 17)" and old = 200 and artifact = 201,
     THEN conjunct2, THEN conjunct2, THEN conjunct1, rule_format, OF g2]
  note fresh = artifact_insertion_at_most_once
    [where this = final and mref = "(4096, 19)" and artifact = 400,
     THEN conjunct2, THEN conjunct2, THEN conjunct2, THEN conjunct1, rule_format, OF g4]
  from fresh obtain final' where f: "put_method (4096, 19) 400 final = Inr final'"
    "GetCompiledMethod (4096, 19) final' = Some 400"
    "\<forall>r. r \<noteq> (4096, 19) \<longrightarrow> GetCompiledMethod r final' = GetCompiledMethod r final"
    by blast
  from f(3) g2 have "GetCompiledMethod (4096, 17) final' = Some 200" by simp
  with f have fresh': "\<exists>final'. put_method (4096, 19) 400 final = Inr final'
         \<and> GetCompiledMethod (4096, 19) final' = Some 400
         \<and> GetCompiledMethod (4096, 17) final' = Some 200"
    by blast
  note run_bad = artifact_insertion_at_most_once
    [where cs = ?bad and is_image = False and image_classes = None
       and 's = "32 word" and 'i = bool,
     THEN conjunct2, THEN conjunct2, THEN conjunct2, THEN conjunct2, THEN conjunct2,
     THEN conjunct2, THEN conjunct2, THEN conjunct2, rule_format]
  have "\<not> (distinct (map fst (class_puts ?bad)) \<and> distinct (map fst (method_puts ?bad)))"
    by simp
  then have bad: "put_artifacts ?bad ?new = Inl DuplicateInsert"
    by (rule run_bad)
  show ?thesis
    by (rule exI [of _ final]) (simp only: run g1 g2 g3 g4 second fresh' bad simp_thms)
qed

subsection \<open>Image classes\<close>

text \<open>
  C9: a driver constructed with no image-class set (NULL) treats every class as
  eligible for the image: \<open>IsImageClass(descriptor)\<close> is true for every descriptor. A
  driver constructed with a set answers true exactly for the descriptors in the set.
\<close>

theorem IsImageClass_null_means_all:
  "IsImageClass descriptor
     (CompilerDriver_init is_image None :: ('s, 'i) CompilerDriver)
   \<and> IsImageClass descriptor
       (CompilerDriver_init is_image (Some classes) :: ('s, 'i) CompilerDriver)
       = (descriptor \<in> classes)"
  by (simp add: IsImageClass_def GetImageClasses_def CompilerDriver_init_def)

theorem IsImageClass_witness:
  "IsImageClass ''Ljava/lang/Object;''
     (CompilerDriver_init True None :: (32 word, bool) CompilerDriver)
   \<and> IsImageClass ''Ljava/lang/Object;''
       (CompilerDriver_init True (Some {''Ljava/lang/Object;'', ''Ljava/lang/String;''})
         :: (32 word, bool) CompilerDriver)
   \<and> \<not> IsImageClass ''Lcom/example/Main;''
       (CompilerDriver_init True (Some {''Ljava/lang/Object;'', ''Ljava/lang/String;''})
         :: (32 word, bool) CompilerDriver)"
  using IsImageClass_null_means_all
    [of "''Ljava/lang/Object;''" True "{''Ljava/lang/Object;'', ''Ljava/lang/String;''}",
     where 's = "32 word" and 'i = bool]
    IsImageClass_null_means_all
    [of "''Lcom/example/Main;''" True "{''Ljava/lang/Object;'', ''Ljava/lang/String;''}",
     where 's = "32 word" and 'i = bool]
  by simp

end
